theory Spec2Isabelle
  imports Complex_Main "HOL-Library.Sublist"
begin

section \<open>Data model of AIService.ts\<close>

text \<open>
  The seven providers are the keys of the \<open>ApiKeys\<close> interface. A credential map is a
  JavaScript object read with \<open>this.apiKeys[provider]\<close>: a missing entry reads as
  \<open>undefined\<close> (here \<open>None\<close>), a present one as its string.
\<close>

datatype Provider = cerebras | gemini | deepseek | openrouter | mistral | together | groq

type_synonym ApiKeys = "Provider \<rightharpoonup> string"

datatype Role = user | assistant | system

record ChatMessage =
  role :: Role
  content :: string

datatype ProviderType = openai_compatible | gemini_native

record ProviderConfig =
  baseURL :: string
  endpoint :: string
  model :: "string option"
  ptype :: ProviderType

fun PROVIDER_CONFIG :: "Provider \<Rightarrow> ProviderConfig" where
  "PROVIDER_CONFIG cerebras =
     \<lparr>baseURL = ''https://api.cerebras.ai/v1'', endpoint = ''/chat/completions'',
      model = Some ''llama-3.1-70b-chat'', ptype = openai_compatible\<rparr>"
| "PROVIDER_CONFIG gemini =
     \<lparr>baseURL = ''https://generativelanguage.googleapis.com/v1beta'',
      endpoint = ''/models/gemini-2.5-flash-lite:generateContent'',
      model = None, ptype = gemini_native\<rparr>"
| "PROVIDER_CONFIG deepseek =
     \<lparr>baseURL = ''https://api.deepseek.com/v1'', endpoint = ''/chat/completions'',
      model = Some ''deepseek-r1-0528'', ptype = openai_compatible\<rparr>"
| "PROVIDER_CONFIG openrouter =
     \<lparr>baseURL = ''https://openrouter.ai/api/v1'', endpoint = ''/chat/completions'',
      model = Some ''deepseek/deepseek-r1'', ptype = openai_compatible\<rparr>"
| "PROVIDER_CONFIG mistral =
     \<lparr>baseURL = ''https://api.mistral.ai/v1'', endpoint = ''/chat/completions'',
      model = Some ''mistral-large-3'', ptype = openai_compatible\<rparr>"
| "PROVIDER_CONFIG together =
     \<lparr>baseURL = ''https://api.together.xyz/v1'', endpoint = ''/chat/completions'',
      model = Some ''meta-llama/Llama-3.1-70b-instruct'', ptype = openai_compatible\<rparr>"
| "PROVIDER_CONFIG groq =
     \<lparr>baseURL = ''https://api.groq.com/openai/v1'', endpoint = ''/chat/completions'',
      model = Some ''llama-3.1-70b-versatile'', ptype = openai_compatible\<rparr>"

definition PROVIDER_CASCADE_ORDER :: "Provider list" where
  "PROVIDER_CASCADE_ORDER = [cerebras, gemini, deepseek, openrouter, mistral, together, groq]"

definition MAX_RETRIES :: nat where
  "MAX_RETRIES = 3"

definition INITIAL_BACKOFF_MS :: real where
  "INITIAL_BACKOFF_MS = 2000"

fun providerName :: "Provider \<Rightarrow> string" where
  "providerName cerebras = ''cerebras''"
| "providerName gemini = ''gemini''"
| "providerName deepseek = ''deepseek''"
| "providerName openrouter = ''openrouter''"
| "providerName mistral = ''mistral''"
| "providerName together = ''together''"
| "providerName groq = ''groq''"

fun roleName :: "Role \<Rightarrow> string" where
  "roleName user = ''user''"
| "roleName assistant = ''assistant''"
| "roleName system = ''system''"

subsection \<open>JSON values and the JavaScript operators the service applies to them\<close>

text \<open>
  A parsed JSON value. Numbers are taken as the real number the parsed double stands
  for; the service only ever tests them for truthiness. An object is its list of
  own properties. \<open>undefined\<close> is not a JSON value: an expression that may be
  \<open>undefined\<close> has type \<open>json option\<close>.
\<close>

datatype json =
    JNull
  | JBool bool
  | JNum real
  | JStr string
  | JArr "json list"
  | JObj "(string \<times> json) list"

text \<open>\<open>if (v)\<close> and \<open>v || ...\<close>: \<open>null\<close>, \<open>false\<close>, \<open>0\<close> and \<open>""\<close> are falsy, every array and object is truthy.\<close>

fun truthy :: "json \<Rightarrow> bool" where
  "truthy JNull = False"
| "truthy (JBool b) = b"
| "truthy (JNum r) = (r \<noteq> 0)"
| "truthy (JStr s) = (s \<noteq> [])"
| "truthy (JArr xs) = True"
| "truthy (JObj kvs) = True"

text \<open>\<open>null\<close> and \<open>undefined\<close>: reading a property of either throws a TypeError, and \<open>?.\<close> stops at either.\<close>

fun nullish :: "json option \<Rightarrow> bool" where
  "nullish None = True"
| "nullish (Some JNull) = True"
| "nullish (Some v) = False"

text \<open>\<open>v.name\<close> for a value that is not nullish: an object's own property, \<open>undefined\<close> on anything else.\<close>

fun getProp :: "json option \<Rightarrow> string \<Rightarrow> json option" where
  "getProp (Some (JObj kvs)) name = map_of kvs name"
| "getProp v name = None"

text \<open>
  \<open>v[0]\<close> for a value that is not nullish: the first element of an array, the first
  character of a string, the property \<open>"0"\<close> of an object, \<open>undefined\<close> otherwise.
\<close>

fun at0 :: "json option \<Rightarrow> json option" where
  "at0 (Some (JArr xs)) = (case xs of [] \<Rightarrow> None | x # rest \<Rightarrow> Some x)"
| "at0 (Some (JStr s)) = (case s of [] \<Rightarrow> None | c # rest \<Rightarrow> Some (JStr [c]))"
| "at0 (Some (JObj kvs)) = map_of kvs ''0''"
| "at0 v = None"

text \<open>The operator \<open>||\<close> with the empty string as its right side.\<close>

fun orEmpty :: "json option \<Rightarrow> json" where
  "orEmpty None = JStr []"
| "orEmpty (Some v) = (if truthy v then v else JStr [])"

subsection \<open>Thrown values\<close>

text \<open>
  Every value the service can throw or see rejected: the error \<open>makeApiCall\<close> builds
  for a response that is not ok (the only one with a \<open>status\<close> property), a rejection
  of \<open>fetch\<close>, \<open>response.text()\<close> or \<open>response.json()\<close> (which carries no status), the
  error of \<open>parseResponse\<close>, the aggregate error of \<open>chat\<close>, and \<open>undefined\<close>, the
  initial value of \<open>lastError\<close>.
\<close>

datatype Thrown =
    ApiCallError Provider nat string
  | Rejection string
  | ParseError Provider
  | AllProvidersFailed
  | UndefinedThrown

fun status_of :: "Thrown \<Rightarrow> nat option" where
  "status_of (ApiCallError p st txt) = Some st"
| "status_of e = None"

fun show_nat :: "nat \<Rightarrow> string" where
  "show_nat n =
     (if n < 10 then [char_of (48 + n)] else show_nat (n div 10) @ [char_of (48 + n mod 10)])"

declare show_nat.simps [simp del]

fun message :: "Thrown \<Rightarrow> string" where
  "message (ApiCallError p st txt) =
     ''API call to '' @ providerName p @ '' failed with status '' @ show_nat st @ '': '' @ txt"
| "message (Rejection m) = m"
| "message (ParseError p) = ''Could not parse a valid response from '' @ providerName p @ ''.''"
| "message AllProvidersFailed =
     ''All AI providers failed. Please check your API keys, network connection, and provider status.''"
| "message UndefinedThrown = []"

subsection \<open>The outside world\<close>

text \<open>
  A request as handed to \<open>fetch\<close>; \<open>body\<close> is the value given to \<open>JSON.stringify\<close>.
  A response has a status, \<open>ok\<close> is \<open>200 \<le> status \<le> 299\<close>, and reading its body as
  text or as JSON either resolves or rejects (\<open>Inl\<close>, with the rejection's message).
\<close>

record Request =
  url :: string
  httpMethod :: string
  headers :: "(string \<times> string) list"
  body :: json

record Response =
  status :: nat
  bodyText :: "string + string"
  bodyJson :: "string + json"

definition ok :: "Response \<Rightarrow> bool" where
  "ok response = (200 \<le> status response \<and> status response \<le> 299)"

text \<open>
  The environment of one run: what the \<open>n\<close>-th call of \<open>fetch\<close> answers to the request
  it is given (\<open>Inl\<close>: the call rejects), and what the \<open>n\<close>-th call of \<open>Math.random\<close>
  returns.
\<close>

record Env =
  fetch :: "nat \<Rightarrow> Request \<Rightarrow> string + Response"
  mathRandom :: "nat \<Rightarrow> real"

datatype Event =
    Fetch Provider Request
  | Sleep real
  | WarnSkip Provider
  | WarnRetry Provider "nat option" real
  | ErrorPermanent Provider Thrown
  | ErrorParse Provider json

text \<open>
  The state a run threads: how many times \<open>fetch\<close> and \<open>Math.random\<close> were called, and
  the trace of everything observable (requests, timer sleeps, console output) in order.
\<close>

record World =
  fetched :: nat
  drawn :: nat
  trace :: "Event list"

definition emit :: "Event \<Rightarrow> World \<Rightarrow> World" where
  "emit ev s = s\<lparr>trace := trace s @ [ev]\<rparr>"

text \<open>What a trace shows: the providers requests went to, and the timer sleeps, in order.\<close>

fun calls_of :: "Event list \<Rightarrow> Provider list" where
  "calls_of [] = []"
| "calls_of (Fetch p r # es) = p # calls_of es"
| "calls_of (ev # es) = calls_of es"

fun sleeps_of :: "Event list \<Rightarrow> real list" where
  "sleeps_of [] = []"
| "sleeps_of (Sleep d # es) = d # sleeps_of es"
| "sleeps_of (ev # es) = sleeps_of es"

text \<open>The failures a trace has logged: the \<open>console.error\<close> lines of \<open>chat\<close> and of \<open>parseResponse\<close>.\<close>

fun errors_of :: "Event list \<Rightarrow> Event list" where
  "errors_of [] = []"
| "errors_of (ErrorPermanent p e # es) = ErrorPermanent p e # errors_of es"
| "errors_of (ErrorParse p v # es) = ErrorParse p v # errors_of es"
| "errors_of (ev # es) = errors_of es"

definition calls :: "World \<Rightarrow> Provider list" where
  "calls s = calls_of (trace s)"

definition sleeps :: "World \<Rightarrow> real list" where
  "sleeps s = sleeps_of (trace s)"

section \<open>Provider Adapter\<close>

definition messageJson :: "ChatMessage \<Rightarrow> json" where
  "messageJson m = JObj [(''role'', JStr (roleName (role m))), (''content'', JStr (content m))]"

definition geminiMessage :: "ChatMessage \<Rightarrow> json" where
  "geminiMessage m =
     JObj [(''role'', JStr (if role m = assistant then ''model'' else roleName (role m))),
           (''parts'', JArr [JObj [(''text'', JStr (content m))]])]"

text \<open>The first half of \<open>makeApiCall\<close>: url, headers and body (lines 133-158).\<close>

definition buildRequest :: "Provider \<Rightarrow> ChatMessage list \<Rightarrow> string \<Rightarrow> Request" where
  "buildRequest provider messages apiKey =
     (let config = PROVIDER_CONFIG provider;
          u = baseURL config @ endpoint config @
                (if ptype config = gemini_native then ''?key='' @ apiKey else []);
          h0 = [(''Content-Type'', ''application/json'')]
      in case ptype config of
           openai_compatible \<Rightarrow>
             \<lparr>url = u, httpMethod = ''POST'',
              headers = h0 @ [(''Authorization'', ''Bearer '' @ apiKey)],
              body = JObj ((case model config of None \<Rightarrow> [] | Some m \<Rightarrow> [(''model'', JStr m)]) @
                           [(''messages'', JArr (map messageJson messages)),
                            (''max_tokens'', JNum 32768),
                            (''temperature'', JNum (7 / 10))])\<rparr>
         | gemini_native \<Rightarrow>
             \<lparr>url = u, httpMethod = ''POST'', headers = h0,
              body = JObj [(''contents'', JArr (map geminiMessage messages)),
                           (''generationConfig'',
                              JObj [(''maxOutputTokens'', JNum 32768),
                                    (''temperature'', JNum (7 / 10))])]\<rparr>)"

definition makeApiCall ::
  "Env \<Rightarrow> Provider \<Rightarrow> ChatMessage list \<Rightarrow> string \<Rightarrow> World \<Rightarrow> (Thrown + json) \<times> World" where
  "makeApiCall env provider messages apiKey s =
     (let request = buildRequest provider messages apiKey;
          s1 = emit (Fetch provider request) (s\<lparr>fetched := fetched s + 1\<rparr>)
      in case fetch env (fetched s) request of
           Inl m \<Rightarrow> (Inl (Rejection m), s1)
         | Inr response \<Rightarrow>
             if \<not> ok response then
               (case bodyText response of
                  Inl m \<Rightarrow> (Inl (Rejection m), s1)
                | Inr errorText \<Rightarrow> (Inl (ApiCallError provider (status response) errorText), s1))
             else
               (case bodyJson response of
                  Inl m \<Rightarrow> (Inl (Rejection m), s1)
                | Inr v \<Rightarrow> (Inr v, s1)))"

text \<open>
  The two property chains of \<open>parseResponse\<close>. \<open>Inl ()\<close> is the TypeError of reading a
  property of \<open>null\<close> or \<open>undefined\<close>; \<open>Inr None\<close> is \<open>undefined\<close>, which an optional
  chain \<open>?.\<close> yields as soon as its left side is nullish.
\<close>

definition openaiContent :: "json \<Rightarrow> unit + json option" where
  "openaiContent response =
     (if nullish (Some response) then Inl ()
      else let choices = getProp (Some response) ''choices'' in
      if nullish choices then Inl ()
      else let choice = at0 choices in
      if nullish choice then Inr None
      else let msg = getProp choice ''message'' in
      if nullish msg then Inr None
      else Inr (getProp msg ''content''))"

definition geminiText :: "json \<Rightarrow> unit + json option" where
  "geminiText response =
     (if nullish (Some response) then Inl ()
      else let candidates = getProp (Some response) ''candidates'' in
      if nullish candidates then Inl ()
      else let candidate = at0 candidates in
      if nullish candidate then Inr None
      else let cont = getProp candidate ''content'' in
      if nullish cont then Inr None
      else let parts = getProp cont ''parts'' in
      if nullish parts then Inl ()
      else let part = at0 parts in
      if nullish part then Inr None
      else Inr (getProp part ''text''))"

definition parseResponse :: "Provider \<Rightarrow> json \<Rightarrow> World \<Rightarrow> (Thrown + json) \<times> World" where
  "parseResponse provider response s =
     (case (case ptype (PROVIDER_CONFIG provider) of
              openai_compatible \<Rightarrow> openaiContent response
            | gemini_native \<Rightarrow> geminiText response) of
        Inl e \<Rightarrow> (Inl (ParseError provider), emit (ErrorParse provider response) s)
      | Inr v \<Rightarrow> (Inr (orEmpty v), s))"

section \<open>Retry Policy\<close>

text \<open>\<open>error.status === 429 || error.status >= 500\<close>; a missing status compares false.\<close>

definition retryable :: "Thrown \<Rightarrow> bool" where
  "retryable e = (case status_of e of None \<Rightarrow> False | Some st \<Rightarrow> st = 429 \<or> st \<ge> 500)"

text \<open>
  The retry branch of the \<open>catch\<close> block (lines 120-122): draw the jitter, warn, and
  wait for the timer.
\<close>

definition backoffDelay :: "Env \<Rightarrow> nat \<Rightarrow> World \<Rightarrow> real" where
  "backoffDelay env attempt s = INITIAL_BACKOFF_MS * 2 ^ attempt + mathRandom env (drawn s) * 1000"

definition backoff :: "Env \<Rightarrow> Provider \<Rightarrow> Thrown \<Rightarrow> nat \<Rightarrow> World \<Rightarrow> World" where
  "backoff env provider e attempt s =
     (let delay = backoffDelay env attempt s;
          s1 = emit (WarnRetry provider (status_of e) delay) (s\<lparr>drawn := drawn s + 1\<rparr>)
      in emit (Sleep delay) s1)"

text \<open>
  The loop of \<open>tryProviderWithBackoff\<close>, from attempt index \<open>attempt\<close> with the current
  value of \<open>lastError\<close>.
\<close>

function tryLoop ::
  "Env \<Rightarrow> Provider \<Rightarrow> ChatMessage list \<Rightarrow> string \<Rightarrow> nat \<Rightarrow> Thrown \<Rightarrow> World
     \<Rightarrow> (Thrown + json) \<times> World" where
  "tryLoop env provider messages apiKey attempt lastError s =
     (if attempt < MAX_RETRIES then
        (case makeApiCall env provider messages apiKey s of
           (Inr v, s1) \<Rightarrow> (Inr v, s1)
         | (Inl e, s1) \<Rightarrow>
             if retryable e then
               tryLoop env provider messages apiKey (attempt + 1) e (backoff env provider e attempt s1)
             else (Inl e, s1))
      else (Inl lastError, s))"
  by pat_completeness auto
termination
  by (relation "measure (\<lambda>(env, provider, messages, apiKey, attempt, lastError, s). MAX_RETRIES - attempt)")
     auto

declare tryLoop.simps [simp del]

definition tryProviderWithBackoff ::
  "Env \<Rightarrow> Provider \<Rightarrow> ChatMessage list \<Rightarrow> string \<Rightarrow> World \<Rightarrow> (Thrown + json) \<times> World" where
  "tryProviderWithBackoff env provider messages apiKey s =
     tryLoop env provider messages apiKey 0 UndefinedThrown s"

section \<open>Cascade Controller\<close>

record ChatResult =
  result_content :: json
  result_provider :: Provider

text \<open>The loop of \<open>chat\<close> over the providers still to try.\<close>

fun chat_loop ::
  "Env \<Rightarrow> ApiKeys \<Rightarrow> ChatMessage list \<Rightarrow> Provider list \<Rightarrow> World
     \<Rightarrow> (Thrown + ChatResult) \<times> World" where
  "chat_loop env apiKeys messages [] s = (Inl AllProvidersFailed, s)"
| "chat_loop env apiKeys messages (provider # rest) s =
     (case apiKeys provider of
        None \<Rightarrow> chat_loop env apiKeys messages rest (emit (WarnSkip provider) s)
      | Some apiKey \<Rightarrow>
          if apiKey = [] then chat_loop env apiKeys messages rest (emit (WarnSkip provider) s)
          else
            (case tryProviderWithBackoff env provider messages apiKey s of
               (Inl e, s1) \<Rightarrow>
                 chat_loop env apiKeys messages rest (emit (ErrorPermanent provider e) s1)
             | (Inr response, s1) \<Rightarrow>
                 if truthy response then
                   (case parseResponse provider response s1 of
                      (Inl e, s2) \<Rightarrow>
                        chat_loop env apiKeys messages rest (emit (ErrorPermanent provider e) s2)
                    | (Inr c, s2) \<Rightarrow>
                        (Inr \<lparr>result_content = c, result_provider = provider\<rparr>, s2))
                 else chat_loop env apiKeys messages rest s1))"

definition chat :: "Env \<Rightarrow> ApiKeys \<Rightarrow> ChatMessage list \<Rightarrow> World \<Rightarrow> (Thrown + ChatResult) \<times> World" where
  "chat env apiKeys messages s = chat_loop env apiKeys messages PROVIDER_CASCADE_ORDER s"

section \<open>Notions the properties are stated with\<close>

text \<open>A credential passes the test \<open>if (!apiKey)\<close> of \<open>chat\<close> when it is there and not empty.\<close>

definition usable :: "ApiKeys \<Rightarrow> Provider \<Rightarrow> bool" where
  "usable keys p = (case keys p of None \<Rightarrow> False | Some key \<Rightarrow> key \<noteq> [])"

text \<open>
  Every provider of the list is skipped for want of a credential or has its retry policy
  throw, each one in the state the controller reaches it in: the state after a skip has
  the warning logged, the state after a failure is the one the retry policy left, with
  the error logged.
\<close>

fun everySkippedOrFailed ::
  "Env \<Rightarrow> ApiKeys \<Rightarrow> ChatMessage list \<Rightarrow> Provider list \<Rightarrow> World \<Rightarrow> bool" where
  "everySkippedOrFailed env apiKeys messages [] s = True"
| "everySkippedOrFailed env apiKeys messages (provider # rest) s =
     (case apiKeys provider of
        None \<Rightarrow> everySkippedOrFailed env apiKeys messages rest (emit (WarnSkip provider) s)
      | Some apiKey \<Rightarrow>
          if apiKey = [] then everySkippedOrFailed env apiKeys messages rest (emit (WarnSkip provider) s)
          else
            (case tryProviderWithBackoff env provider messages apiKey s of
               (Inl e, s1) \<Rightarrow>
                 everySkippedOrFailed env apiKeys messages rest (emit (ErrorPermanent provider e) s1)
             | (Inr response, s1) \<Rightarrow> False))"

text \<open>
  Every provider of the list is passed over, each one in the state the controller reaches
  it in: it is skipped for want of a credential, or its retry policy throws, or the policy
  returns a falsy body, or it returns a truthy body on which extraction throws. The
  result is the state after the last of them, with what the controller logs on the way;
  there is none as soon as one provider yields a content.
\<close>

fun passedOver ::
  "Env \<Rightarrow> ApiKeys \<Rightarrow> ChatMessage list \<Rightarrow> Provider list \<Rightarrow> World \<Rightarrow> World option" where
  "passedOver env apiKeys messages [] s = Some s"
| "passedOver env apiKeys messages (provider # rest) s =
     (case apiKeys provider of
        None \<Rightarrow> passedOver env apiKeys messages rest (emit (WarnSkip provider) s)
      | Some apiKey \<Rightarrow>
          if apiKey = [] then passedOver env apiKeys messages rest (emit (WarnSkip provider) s)
          else
            (case tryProviderWithBackoff env provider messages apiKey s of
               (Inl e, s1) \<Rightarrow> passedOver env apiKeys messages rest (emit (ErrorPermanent provider e) s1)
             | (Inr response, s1) \<Rightarrow>
                 if truthy response then
                   (case parseResponse provider response s1 of
                      (Inl e, s2) \<Rightarrow>
                        passedOver env apiKeys messages rest (emit (ErrorPermanent provider e) s2)
                    | (Inr c, s2) \<Rightarrow> None)
                 else passedOver env apiKeys messages rest s1))"

text \<open>
  Every provider of the list is skipped for want of a credential or has its retry policy
  return a falsy body, each one in the state the controller reaches it in.
\<close>

fun everySkippedOrFalsy ::
  "Env \<Rightarrow> ApiKeys \<Rightarrow> ChatMessage list \<Rightarrow> Provider list \<Rightarrow> World \<Rightarrow> bool" where
  "everySkippedOrFalsy env apiKeys messages [] s = True"
| "everySkippedOrFalsy env apiKeys messages (provider # rest) s =
     (case apiKeys provider of
        None \<Rightarrow> everySkippedOrFalsy env apiKeys messages rest (emit (WarnSkip provider) s)
      | Some apiKey \<Rightarrow>
          if apiKey = [] then everySkippedOrFalsy env apiKeys messages rest (emit (WarnSkip provider) s)
          else
            (case tryProviderWithBackoff env provider messages apiKey s of
               (Inl e, s1) \<Rightarrow> False
             | (Inr response, s1) \<Rightarrow>
                 \<not> truthy response \<and> everySkippedOrFalsy env apiKeys messages rest s1))"

text \<open>The state after the skip warnings of a list of providers.\<close>

definition skipped :: "Provider list \<Rightarrow> World \<Rightarrow> World" where
  "skipped ps s = s\<lparr>trace := trace s @ map WarnSkip ps\<rparr>"

text \<open>
  What a provider leaves in the trace when every request is answered at once with a
  falsy body: its skip warning, or its one request.
\<close>

definition passedEvent :: "ApiKeys \<Rightarrow> ChatMessage list \<Rightarrow> Provider \<Rightarrow> Event" where
  "passedEvent keys msgs q =
     (case keys q of
        None \<Rightarrow> WarnSkip q
      | Some k \<Rightarrow> if k = [] then WarnSkip q else Fetch q (buildRequest q msgs k))"

section \<open>Concrete worlds\<close>

text \<open>
  A fresh run, and mock endpoints in the manner of the repository's test file: an error
  response with a status and a text body, a 200 response with a JSON body, the two reply
  shapes, an endpoint that answers 429 once and then succeeds, endpoints that always
  answer a given status or a given JSON body, and a scripted sequence of answers after
  which \<open>fetch\<close> rejects. The credential maps are those of the test file cut down to
  the first two providers, with the primary credential there, empty, or alone and empty.
\<close>

definition s0 :: World where "s0 = \<lparr>fetched = 0, drawn = 0, trace = []\<rparr>"

definition errorResponse :: "nat \<Rightarrow> string \<Rightarrow> Response" where
  "errorResponse st txt = \<lparr>status = st, bodyText = Inr txt, bodyJson = Inl ''Unexpected end of JSON input''\<rparr>"

definition jsonResponse :: "json \<Rightarrow> Response" where
  "jsonResponse v = \<lparr>status = 200, bodyText = Inr [], bodyJson = Inr v\<rparr>"

definition openaiReply :: "string \<Rightarrow> json" where
  "openaiReply t = JObj [(''choices'', JArr [JObj [(''message'', JObj [(''content'', JStr t)])]])]"

definition envRetryOnce :: Env where
  "envRetryOnce = \<lparr>fetch = (\<lambda>n r. if n = 0 then Inr (errorResponse 429 ''Rate limit exceeded'')
                                 else Inr (jsonResponse (openaiReply ''Success on retry''))),
                   mathRandom = (\<lambda>n. 1 / 2)\<rparr>"

definition envAlways :: "nat \<Rightarrow> Env" where
  "envAlways st = \<lparr>fetch = (\<lambda>n r. Inr (errorResponse st ''unavailable'')), mathRandom = (\<lambda>n. 1 / 2)\<rparr>"

definition envScript :: "(string + Response) list \<Rightarrow> Env" where
  "envScript answers =
     \<lparr>fetch = (\<lambda>n r. if n < length answers then answers ! n else Inl ''fetch failed''),
      mathRandom = (\<lambda>n. 1 / 2)\<rparr>"

definition geminiReply :: "string \<Rightarrow> json" where
  "geminiReply t =
     JObj [(''candidates'', JArr [JObj [(''content'', JObj [(''parts'', JArr [JObj [(''text'', JStr t)]])])]])]"

definition twoKeys :: ApiKeys where
  "twoKeys = [cerebras \<mapsto> ''fake-cerebras-key'', gemini \<mapsto> ''fake-gemini-key'']"

definition hello :: "ChatMessage list" where
  "hello = [\<lparr>role = user, content = ''hello''\<rparr>]"

definition envFallback :: Env where
  "envFallback = envScript [Inr (errorResponse 500 []), Inr (errorResponse 500 []), Inr (errorResponse 500 []),
                            Inr (jsonResponse (geminiReply ''Response from Gemini''))]"

definition envUnusable :: "json \<Rightarrow> Env" where
  "envUnusable v = envScript [Inr (jsonResponse v), Inr (jsonResponse (geminiReply ''Response from Gemini''))]"

definition envJson :: "json \<Rightarrow> Env" where
  "envJson v = \<lparr>fetch = (\<lambda>n r. Inr (jsonResponse v)), mathRandom = (\<lambda>n. 1 / 2)\<rparr>"

definition emptyCerebrasKey :: ApiKeys where
  "emptyCerebrasKey = [cerebras \<mapsto> []]"

definition dialogue :: "ChatMessage list" where
  "dialogue = [\<lparr>role = system, content = ''be brief''\<rparr>, \<lparr>role = user, content = ''hello''\<rparr>,
               \<lparr>role = assistant, content = ''hi''\<rparr>]"



definition skipCerebras :: ApiKeys where
  "skipCerebras = [cerebras \<mapsto> [], gemini \<mapsto> ''fake-gemini-key'']"

definition envRetryNull :: Env where
  "envRetryNull = envScript [Inr (errorResponse 429 ''Rate limit exceeded''), Inr (jsonResponse JNull),
                             Inr (jsonResponse (geminiReply ''Response from Gemini''))]"

section \<open>Basic facts\<close>

lemma calls_of_append: "calls_of (xs @ ys) = calls_of xs @ calls_of ys"
  by (induction xs rule: calls_of.induct) simp_all

lemma sleeps_of_append: "sleeps_of (xs @ ys) = sleeps_of xs @ sleeps_of ys"
  by (induction xs rule: sleeps_of.induct) simp_all

lemma errors_of_append: "errors_of (xs @ ys) = errors_of xs @ errors_of ys"
  by (induction xs rule: errors_of.induct) simp_all

lemma emit_simps [simp]:
  "fetched (emit ev s) = fetched s" "drawn (emit ev s) = drawn s" "trace (emit ev s) = trace s @ [ev]"
  by (simp_all add: emit_def)

lemma calls_emit:
  "calls (emit ev s) = calls s @ calls_of [ev]"
  by (simp add: calls_def calls_of_append)

lemma sleeps_emit:
  "sleeps (emit ev s) = sleeps s @ sleeps_of [ev]"
  by (simp add: sleeps_def sleeps_of_append)

lemma makeApiCall_state:
  "snd (makeApiCall env p msgs key s) = emit (Fetch p (buildRequest p msgs key)) (s\<lparr>fetched := fetched s + 1\<rparr>)"
  by (simp add: makeApiCall_def Let_def split: sum.splits)

lemma makeApiCall_obs:
  assumes "makeApiCall env p msgs key s = (r, s1)"
  shows "fetched s1 = fetched s + 1" "drawn s1 = drawn s" "calls s1 = calls s @ [p]" "sleeps s1 = sleeps s"
  using makeApiCall_state[of env p msgs key s] assms
  by (simp_all add: calls_emit sleeps_emit) (simp_all add: calls_def sleeps_def)

lemma makeApiCall_trace:
  "makeApiCall env p msgs key s = (r, s1) \<Longrightarrow> trace s1 = trace s @ [Fetch p (buildRequest p msgs key)]"
  using makeApiCall_state[of env p msgs key s] by simp

lemma backoff_obs:
  "fetched (backoff env p e a s) = fetched s" "drawn (backoff env p e a s) = drawn s + 1"
  "calls (backoff env p e a s) = calls s" "sleeps (backoff env p e a s) = sleeps s @ [backoffDelay env a s]"
  by (simp_all add: backoff_def Let_def calls_emit sleeps_emit) (simp_all add: calls_def sleeps_def)

lemma backoff_trace:
  "\<exists>evs. trace (backoff env p e a s) = trace s @ evs \<and> errors_of evs = []"
  by (simp add: backoff_def Let_def)




lemma parseResponse_obs:
  "parseResponse p v s = (r, s') \<Longrightarrow> calls s' = calls s \<and> fetched s' = fetched s"
  by (auto simp: parseResponse_def calls_emit split: sum.splits)

lemma parseResponse_ok_state:
  "parseResponse p v s = (Inr c, s') \<Longrightarrow> s' = s"
  by (auto simp: parseResponse_def split: sum.splits)

lemma parseResponse_trace:
  "parseResponse p v s = (r, s') \<Longrightarrow> \<exists>evs. trace s' = trace s @ evs"
  by (auto simp: parseResponse_def split: sum.splits)

lemma parse_gemini_reply:
  "parseResponse gemini (geminiReply t) s = (Inr (if t = [] then JStr [] else JStr t), s)"
  by (simp add: parseResponse_def geminiText_def geminiReply_def)

lemma not_usable_iff: "\<not> usable keys p \<longleftrightarrow> keys p = None \<or> keys p = Some []"
  by (auto simp: usable_def split: option.splits)

lemma distinct_order: "distinct PROVIDER_CASCADE_ORDER"
  by (simp add: PROVIDER_CASCADE_ORDER_def)

lemmas run_defs = tryProviderWithBackoff_def tryLoop.simps makeApiCall_def envScript_def ok_def
  retryable_def errorResponse_def jsonResponse_def MAX_RETRIES_def Let_def backoff_def emit_def s0_def

section \<open>Provider Adapter: the request\<close>

text \<open>
  Claim C8. For a provider of the bearer-token kind the url is base url followed by
  endpoint, the Authorization header is \<open>Bearer\<close> followed by the credential, and the
  body holds the model, the messages one for one with role and text as given, the cap
  32768 and the temperature 0.7.
\<close>

theorem bearer_request_shape:
  assumes "ptype (PROVIDER_CONFIG p) = openai_compatible"
  shows "url (buildRequest p msgs key) = baseURL (PROVIDER_CONFIG p) @ endpoint (PROVIDER_CONFIG p) \<and>
         map_of (headers (buildRequest p msgs key)) ''Authorization'' = Some (''Bearer '' @ key) \<and>
         (\<exists>m. model (PROVIDER_CONFIG p) = Some m \<and>
              body (buildRequest p msgs key) =
                JObj [(''model'', JStr m),
                      (''messages'',
                         JArr (map (\<lambda>msg. JObj [(''role'', JStr (roleName (role msg))),
                                                 (''content'', JStr (content msg))]) msgs)),
                      (''max_tokens'', JNum 32768),
                      (''temperature'', JNum (7 / 10))])"
  using assms by (cases p) (simp_all add: buildRequest_def Let_def messageJson_def)

text \<open>Claim C8 for the primary provider and a conversation of three messages.\<close>

theorem bearer_request_shape_witness:
  "ptype (PROVIDER_CONFIG cerebras) = openai_compatible \<and>
   url (buildRequest cerebras dialogue ''fake-cerebras-key'') = ''https://api.cerebras.ai/v1/chat/completions'' \<and>
   map_of (headers (buildRequest cerebras dialogue ''fake-cerebras-key'')) ''Authorization'' =
     Some ''Bearer fake-cerebras-key'' \<and>
   body (buildRequest cerebras dialogue ''fake-cerebras-key'') =
     JObj [(''model'', JStr ''llama-3.1-70b-chat''),
           (''messages'',
              JArr [JObj [(''role'', JStr ''system''), (''content'', JStr ''be brief'')],
                    JObj [(''role'', JStr ''user''), (''content'', JStr ''hello'')],
                    JObj [(''role'', JStr ''assistant''), (''content'', JStr ''hi'')]]),
           (''max_tokens'', JNum 32768),
           (''temperature'', JNum (7 / 10))]"
proof -
  have h: "ptype (PROVIDER_CONFIG cerebras) = openai_compatible" by simp
  from bearer_request_shape[OF h, of dialogue "''fake-cerebras-key''"] h
  show ?thesis by (simp add: dialogue_def)
qed

text \<open>
  Claim C7. For a provider of the native kind the body's contents list has one entry
  per message, in order; entry \<open>i\<close> has the role \<open>model\<close> when message \<open>i\<close> is the
  assistant's and the message's own role otherwise, and the text wrapped in a one-element
  parts list; the cap and the temperature are under \<open>generationConfig\<close>. The credential
  is the \<open>key\<close> query parameter of the url, the only header is the content type, and the
  body does not depend on the credential.
\<close>

theorem native_request_shape:
  assumes "ptype (PROVIDER_CONFIG p) = gemini_native"
  shows "(\<exists>contents.
            body (buildRequest p msgs key) =
              JObj [(''contents'', JArr contents),
                    (''generationConfig'',
                       JObj [(''maxOutputTokens'', JNum 32768), (''temperature'', JNum (7 / 10))])] \<and>
            length contents = length msgs \<and>
            (\<forall>i<length msgs.
               contents ! i =
                 JObj [(''role'', JStr (if role (msgs ! i) = assistant then ''model''
                                        else roleName (role (msgs ! i)))),
                       (''parts'', JArr [JObj [(''text'', JStr (content (msgs ! i)))]])])) \<and>
         url (buildRequest p msgs key) =
           baseURL (PROVIDER_CONFIG p) @ endpoint (PROVIDER_CONFIG p) @ ''?key='' @ key \<and>
         headers (buildRequest p msgs key) = [(''Content-Type'', ''application/json'')] \<and>
         (\<forall>key'. body (buildRequest p msgs key') = body (buildRequest p msgs key))"
  using assms by (cases p) (simp_all add: buildRequest_def Let_def geminiMessage_def)

text \<open>Claim C7 for a conversation of three messages, the last one the assistant's.\<close>

theorem native_request_shape_witness:
  "ptype (PROVIDER_CONFIG gemini) = gemini_native \<and>
   body (buildRequest gemini dialogue ''fake-gemini-key'') =
     JObj [(''contents'',
              JArr [JObj [(''role'', JStr ''system''), (''parts'', JArr [JObj [(''text'', JStr ''be brief'')]])],
                    JObj [(''role'', JStr ''user''), (''parts'', JArr [JObj [(''text'', JStr ''hello'')]])],
                    JObj [(''role'', JStr ''model''), (''parts'', JArr [JObj [(''text'', JStr ''hi'')]])]]),
           (''generationConfig'',
              JObj [(''maxOutputTokens'', JNum 32768), (''temperature'', JNum (7 / 10))])] \<and>
   url (buildRequest gemini dialogue ''fake-gemini-key'') =
     ''https://generativelanguage.googleapis.com/v1beta/models/gemini-2.5-flash-lite:generateContent?key=fake-gemini-key'' \<and>
   headers (buildRequest gemini dialogue ''fake-gemini-key'') = [(''Content-Type'', ''application/json'')]"
proof -
  have h: "ptype (PROVIDER_CONFIG gemini) = gemini_native" by simp
  from native_request_shape[OF h, of dialogue "''fake-gemini-key''"]
  obtain contents where c:
    "body (buildRequest gemini dialogue ''fake-gemini-key'') =
       JObj [(''contents'', JArr contents),
             (''generationConfig'',
                JObj [(''maxOutputTokens'', JNum 32768), (''temperature'', JNum (7 / 10))])]"
    "length contents = length dialogue"
    "\<forall>i<length dialogue.
       contents ! i =
         JObj [(''role'', JStr (if role (dialogue ! i) = assistant then ''model''
                                else roleName (role (dialogue ! i)))),
               (''parts'', JArr [JObj [(''text'', JStr (content (dialogue ! i)))]])]"
    and u: "url (buildRequest gemini dialogue ''fake-gemini-key'') =
           baseURL (PROVIDER_CONFIG gemini) @ endpoint (PROVIDER_CONFIG gemini) @ ''?key='' @ ''fake-gemini-key''"
    and hd: "headers (buildRequest gemini dialogue ''fake-gemini-key'') = [(''Content-Type'', ''application/json'')]"
    by blast
  from c(2) have len: "length contents = 3" by (simp add: dialogue_def)
  from c(3) have "contents ! 0 = JObj [(''role'', JStr ''system''), (''parts'', JArr [JObj [(''text'', JStr ''be brief'')]])]"
    "contents ! 1 = JObj [(''role'', JStr ''user''), (''parts'', JArr [JObj [(''text'', JStr ''hello'')]])]"
    "contents ! 2 = JObj [(''role'', JStr ''model''), (''parts'', JArr [JObj [(''text'', JStr ''hi'')]])]"
    by (simp_all add: dialogue_def)
  with len have "contents =
      [JObj [(''role'', JStr ''system''), (''parts'', JArr [JObj [(''text'', JStr ''be brief'')]])],
       JObj [(''role'', JStr ''user''), (''parts'', JArr [JObj [(''text'', JStr ''hello'')]])],
       JObj [(''role'', JStr ''model''), (''parts'', JArr [JObj [(''text'', JStr ''hi'')]])]]"
    by (intro nth_equalityI) (auto simp: less_Suc_eq numeral_3_eq_3 numeral_2_eq_2)
  with c(1) u hd h show ?thesis by simp
qed

section \<open>Provider Adapter: extraction\<close>




section \<open>Retry Policy: one turn of the loop\<close>

lemma tryLoop_done: "\<not> attempt < MAX_RETRIES \<Longrightarrow> tryLoop env p msgs key attempt lastE s = (Inl lastE, s)"
  by (subst tryLoop.simps) simp

lemma tryLoop_success:
  "attempt < MAX_RETRIES \<Longrightarrow> makeApiCall env p msgs key s = (Inr v, s1) \<Longrightarrow>
   tryLoop env p msgs key attempt lastE s = (Inr v, s1)"
  by (subst tryLoop.simps) simp

lemma tryLoop_fatal:
  "attempt < MAX_RETRIES \<Longrightarrow> makeApiCall env p msgs key s = (Inl e, s1) \<Longrightarrow> \<not> retryable e \<Longrightarrow>
   tryLoop env p msgs key attempt lastE s = (Inl e, s1)"
  by (subst tryLoop.simps) simp

lemma tryLoop_retry:
  "attempt < MAX_RETRIES \<Longrightarrow> makeApiCall env p msgs key s = (Inl e, s1) \<Longrightarrow> retryable e \<Longrightarrow>
   tryLoop env p msgs key attempt lastE s =
   tryLoop env p msgs key (attempt + 1) e (backoff env p e attempt s1)"
  by (subst tryLoop.simps) simp

lemma tryLoop_calls:
  "tryLoop env p msgs key attempt lastE s = (r, s') \<Longrightarrow>
   \<exists>n. n \<le> MAX_RETRIES - attempt \<and> calls s' = calls s @ replicate n p \<and> fetched s' = fetched s + n"
proof (induction env p msgs key attempt lastE s arbitrary: r s' rule: tryLoop.induct)
  case (1 env p msgs key attempt lastE s)
  show ?case
  proof (cases "attempt < MAX_RETRIES")
    case False
    with "1.prems" have "s' = s" by (simp add: tryLoop_done)
    then show ?thesis by (intro exI[of _ 0]) simp
  next
    case lt: True
    obtain res s1 where call: "makeApiCall env p msgs key s = (res, s1)"
      by (cases "makeApiCall env p msgs key s")
    note obs = makeApiCall_obs[OF call]
    show ?thesis
    proof (cases res)
      case (Inr v)
      with lt call "1.prems" have "s' = s1" by (simp add: tryLoop_success)
      with obs lt show ?thesis by (intro exI[of _ 1]) simp
    next
      case (Inl e)
      show ?thesis
      proof (cases "retryable e")
        case False
        with lt call Inl "1.prems" have "s' = s1" by (simp add: tryLoop_fatal)
        with obs lt show ?thesis by (intro exI[of _ 1]) simp
      next
        case True
        with lt call Inl "1.prems"
        have rec: "tryLoop env p msgs key (attempt + 1) e (backoff env p e attempt s1) = (r, s')"
          by (simp add: tryLoop_retry)
        from "1.IH"[OF lt call[unfolded Inl, symmetric] refl True rec]
        obtain n where n: "n \<le> MAX_RETRIES - (attempt + 1)"
          "calls s' = calls (backoff env p e attempt s1) @ replicate n p"
          "fetched s' = fetched (backoff env p e attempt s1) + n" by blast
        with obs lt show ?thesis
          by (intro exI[of _ "Suc n"]) (simp add: backoff_obs replicate_append_same)
      qed
    qed
  qed
qed

lemma tryProvider_calls:
  "tryProviderWithBackoff env p msgs key s = (r, s') \<Longrightarrow>
   \<exists>n\<le>3. calls s' = calls s @ replicate n p"
  unfolding tryProviderWithBackoff_def
  by (drule tryLoop_calls) (auto simp: MAX_RETRIES_def)

lemma tryLoop_trace:
  "tryLoop env p msgs key attempt lastE s = (r, s') \<Longrightarrow>
   \<exists>evs. trace s' = trace s @ evs \<and> errors_of evs = [] \<and>
         (attempt < MAX_RETRIES \<longrightarrow> (\<exists>more. evs = Fetch p (buildRequest p msgs key) # more))"
proof (induction env p msgs key attempt lastE s arbitrary: r s' rule: tryLoop.induct)
  case (1 env p msgs key attempt lastE s)
  show ?case
  proof (cases "attempt < MAX_RETRIES")
    case False
    with "1.prems" have "s' = s" by (simp add: tryLoop_done)
    with False show ?thesis by simp
  next
    case lt: True
    obtain res s1 where call: "makeApiCall env p msgs key s = (res, s1)"
      by (cases "makeApiCall env p msgs key s")
    note t1 = makeApiCall_trace[OF call]
    show ?thesis
    proof (cases res)
      case (Inr v)
      with lt call "1.prems" have "s' = s1" by (simp add: tryLoop_success)
      with t1 show ?thesis by simp
    next
      case (Inl e)
      show ?thesis
      proof (cases "retryable e")
        case False
        with lt call Inl "1.prems" have "s' = s1" by (simp add: tryLoop_fatal)
        with t1 show ?thesis by simp
      next
        case True
        with lt call Inl "1.prems"
        have rec: "tryLoop env p msgs key (attempt + 1) e (backoff env p e attempt s1) = (r, s')"
          by (simp add: tryLoop_retry)
        from "1.IH"[OF lt call[unfolded Inl, symmetric] refl True rec]
        obtain evs where evs: "trace s' = trace (backoff env p e attempt s1) @ evs" "errors_of evs = []"
          by blast
        from backoff_trace[of env p e attempt s1] obtain bs where
          bs: "trace (backoff env p e attempt s1) = trace s1 @ bs" "errors_of bs = []" by blast
        from evs bs t1 show ?thesis by (simp add: errors_of_append)
      qed
    qed
  qed
qed

lemma tryProvider_trace:
  "tryProviderWithBackoff env p msgs key s = (r, s') \<Longrightarrow>
   \<exists>more. trace s' = trace s @ Fetch p (buildRequest p msgs key) # more \<and> errors_of more = []"
  unfolding tryProviderWithBackoff_def
  by (drule tryLoop_trace) (auto simp: MAX_RETRIES_def)

lemma tryProvider_first_call:
  "tryProviderWithBackoff env p msgs key s = (r, s') \<Longrightarrow> \<exists>more. calls s' = calls s @ p # more"
  by (drule tryProvider_trace) (auto simp: calls_def calls_of_append)

lemma retryable_iff:
  "retryable e \<longleftrightarrow> status_of e = Some 429 \<or> (\<exists>st. status_of e = Some st \<and> 500 \<le> st)"
  by (auto simp: retryable_def split: option.splits)

text \<open>
  Claim C3. At any attempt below the ceiling whose call fails: when the error's status is
  429 or at least 500 the loop goes on to the next attempt index after the backoff (and,
  when that index is still below the ceiling, at least one more request goes to the
  provider); on any other error, also one without a status, the loop ends with that very
  error and the failed request is the last one.
\<close>

theorem retry_classification:
  assumes "attempt < MAX_RETRIES" and "makeApiCall env p msgs key s = (Inl e, s1)"
  shows "if status_of e = Some 429 \<or> (\<exists>st. status_of e = Some st \<and> 500 \<le> st)
         then tryLoop env p msgs key attempt lastE s =
                tryLoop env p msgs key (attempt + 1) e (backoff env p e attempt s1)
              \<and> (attempt + 1 < MAX_RETRIES \<longrightarrow>
                   (\<exists>more. calls (snd (tryLoop env p msgs key attempt lastE s)) = calls s @ p # p # more))
         else tryLoop env p msgs key attempt lastE s = (Inl e, s1) \<and> calls s1 = calls s @ [p]"
proof (cases "retryable e")
  case False
  with assms show ?thesis
    by (simp add: retryable_iff[symmetric] tryLoop_fatal makeApiCall_obs)
next
  case True
  from assms True have step: "tryLoop env p msgs key attempt lastE s =
      tryLoop env p msgs key (attempt + 1) e (backoff env p e attempt s1)"
    by (rule tryLoop_retry)
  have "\<exists>more. calls (snd (tryLoop env p msgs key attempt lastE s)) = calls s @ p # p # more"
    if more: "attempt + 1 < MAX_RETRIES"
  proof -
    let ?b = "backoff env p e attempt s1"
    obtain r2 s2 where c2: "makeApiCall env p msgs key ?b = (r2, s2)"
      by (cases "makeApiCall env p msgs key ?b")
    have s2: "calls s2 = calls s @ [p, p]"
      using makeApiCall_obs(3)[OF c2] makeApiCall_obs(3)[OF assms(2)] by (simp add: backoff_obs)
    obtain r3 s3 where fin: "tryLoop env p msgs key (attempt + 1) e ?b = (r3, s3)"
      by (cases "tryLoop env p msgs key (attempt + 1) e ?b")
    have "\<exists>n. calls s3 = calls s2 @ replicate n p"
    proof (cases r2)
      case (Inr v)
      with more c2 fin have "s3 = s2" by (simp add: tryLoop_success)
      then show ?thesis by (intro exI[of _ 0]) simp
    next
      case (Inl e2)
      show ?thesis
      proof (cases "retryable e2")
        case False
        with more c2 Inl fin have "s3 = s2" by (simp add: tryLoop_fatal)
        then show ?thesis by (intro exI[of _ 0]) simp
      next
        case True
        with more c2 Inl fin
        have "tryLoop env p msgs key (attempt + 1 + 1) e2 (backoff env p e2 (attempt + 1) s2) = (r3, s3)"
          by (simp add: tryLoop_retry)
        from tryLoop_calls[OF this] show ?thesis by (auto simp: backoff_obs)
      qed
    qed
    with s2 step fin show ?thesis by auto
  qed
  with True step show ?thesis by (simp add: retryable_iff[symmetric])
qed

lemma envRetryOnce_first:
  "makeApiCall envRetryOnce cerebras [] ''k'' s0 =
     (Inl (ApiCallError cerebras 429 ''Rate limit exceeded''),
      emit (Fetch cerebras (buildRequest cerebras [] ''k'')) (s0\<lparr>fetched := 1\<rparr>))"
  by (simp add: makeApiCall_def envRetryOnce_def errorResponse_def ok_def s0_def Let_def)

theorem retry_classification_witness:
  "0 < MAX_RETRIES \<and>
   makeApiCall envRetryOnce cerebras [] ''k'' s0 =
     (Inl (ApiCallError cerebras 429 ''Rate limit exceeded''),
      emit (Fetch cerebras (buildRequest cerebras [] ''k'')) (s0\<lparr>fetched := 1\<rparr>)) \<and>
   (\<exists>more. calls (snd (tryLoop envRetryOnce cerebras [] ''k'' 0 UndefinedThrown s0)) =
            calls s0 @ cerebras # cerebras # more)"
proof -
  have h1: "0 < MAX_RETRIES" by (simp add: MAX_RETRIES_def)
  have h2: "0 + 1 < MAX_RETRIES" by (simp add: MAX_RETRIES_def)
  have c: "status_of (ApiCallError cerebras 429 ''Rate limit exceeded'') = Some 429 \<or>
           (\<exists>st. status_of (ApiCallError cerebras 429 ''Rate limit exceeded'') = Some st \<and> 500 \<le> st)"
    by simp
  note r = retry_classification[OF h1 envRetryOnce_first, of UndefinedThrown, unfolded if_P[OF c]]
  from r h2
  have "\<exists>more. calls (snd (tryLoop envRetryOnce cerebras [] ''k'' 0 UndefinedThrown s0)) =
            calls s0 @ cerebras # cerebras # more"
    by blast
  with h1 envRetryOnce_first show ?thesis by blast
qed

section \<open>Cascade Controller: one turn of the loop\<close>

lemma chat_loop_skip:
  "keys p = None \<or> keys p = Some [] \<Longrightarrow>
   chat_loop env keys msgs (p # rest) s = chat_loop env keys msgs rest (emit (WarnSkip p) s)"
  by auto

lemma chat_loop_failed:
  "keys p = Some key \<Longrightarrow> key \<noteq> [] \<Longrightarrow> tryProviderWithBackoff env p msgs key s = (Inl e, s') \<Longrightarrow>
   chat_loop env keys msgs (p # rest) s = chat_loop env keys msgs rest (emit (ErrorPermanent p e) s')"
  by simp

lemma chat_loop_calls:
  "chat_loop env keys msgs ps s = (r, s') \<Longrightarrow>
   \<exists>new. calls s' = calls s @ new \<and> set new \<subseteq> {q \<in> set ps. usable keys q}"
proof (induction ps arbitrary: s)
  case Nil
  then show ?case by simp
next
  case (Cons p rest)
  show ?case
  proof (cases "usable keys p")
    case False
    then have "keys p = None \<or> keys p = Some []" by (simp add: not_usable_iff)
    then have "chat_loop env keys msgs (p # rest) s = chat_loop env keys msgs rest (emit (WarnSkip p) s)"
      by (rule chat_loop_skip)
    with Cons.prems have "chat_loop env keys msgs rest (emit (WarnSkip p) s) = (r, s')" by simp
    from Cons.IH[OF this]
    obtain new where "calls s' = calls (emit (WarnSkip p) s) @ new" "set new \<subseteq> {q \<in> set rest. usable keys q}"
      by blast
    then show ?thesis by (auto simp: calls_emit)
  next
    case True
    then obtain key where key: "keys p = Some key" "key \<noteq> []"
      by (auto simp: usable_def split: option.splits)
    obtain r1 s1 where t: "tryProviderWithBackoff env p msgs key s = (r1, s1)"
      by (cases "tryProviderWithBackoff env p msgs key s")
    from tryProvider_calls[OF t] obtain n where n: "calls s1 = calls s @ replicate n p" by blast
    have own: "set (replicate n p) \<subseteq> {q \<in> set (p # rest). usable keys q}"
      using True by auto
    have later: "\<exists>new. calls s' = calls s @ new \<and> set new \<subseteq> {q \<in> set (p # rest). usable keys q}"
      if "chat_loop env keys msgs rest s2 = (r, s')" and "calls s2 = calls s1" for s2
    proof -
      from Cons.IH[OF that(1)] obtain new where
        "calls s' = calls s2 @ new" "set new \<subseteq> {q \<in> set rest. usable keys q}" by blast
      with that(2) n own show ?thesis
        by (intro exI[of _ "replicate n p @ new"]) auto
    qed
    show ?thesis
    proof (cases r1)
      case (Inl e)
      with key t Cons.prems have "chat_loop env keys msgs rest (emit (ErrorPermanent p e) s1) = (r, s')"
        by simp
      then show ?thesis by (rule later) (simp add: calls_emit)
    next
      case (Inr v)
      show ?thesis
      proof (cases "truthy v")
        case False
        with Inr key t Cons.prems have "chat_loop env keys msgs rest s1 = (r, s')" by simp
        then show ?thesis by (rule later) simp
      next
        case tr: True
        obtain r2 s2 where pr: "parseResponse p v s1 = (r2, s2)"
          by (cases "parseResponse p v s1")
        note po = parseResponse_obs[OF pr]
        show ?thesis
        proof (cases r2)
          case (Inl e)
          with Inr tr pr key t Cons.prems
          have "chat_loop env keys msgs rest (emit (ErrorPermanent p e) s2) = (r, s')" by simp
          then show ?thesis by (rule later) (simp add: calls_emit po)
        next
          case (Inr c)
          with \<open>r1 = Inr v\<close> tr pr key t Cons.prems have "s' = s2" by simp
          with po n own show ?thesis by (intro exI[of _ "replicate n p"]) simp
        qed
      qed
    qed
  qed
qed

lemma chat_loop_error:
  "chat_loop env keys msgs ps s = (Inl e, s') \<Longrightarrow> e = AllProvidersFailed"
  by (induction ps arbitrary: s) (auto split: option.splits if_splits prod.splits sum.splits)

lemma chat_loop_provider:
  "chat_loop env keys msgs ps s = (Inr r, s') \<Longrightarrow> result_provider r \<in> set ps"
  by (induction ps arbitrary: s) (auto split: option.splits if_splits prod.splits sum.splits)

lemma chat_loop_trace:
  "\<exists>evs. trace (snd (chat_loop env keys msgs ps s)) = trace s @ evs"
proof (induction ps arbitrary: s)
  case Nil
  show ?case by simp
next
  case (Cons p rest)
  have ext: "\<exists>evs. trace (snd (chat_loop env keys msgs rest s2)) = trace s @ evs"
    if "\<exists>evs. trace s2 = trace s @ evs" for s2
    using Cons.IH[of s2] that by auto
  show ?case
  proof (cases "usable keys p")
    case False
    then have "chat_loop env keys msgs (p # rest) s = chat_loop env keys msgs rest (emit (WarnSkip p) s)"
      by (intro chat_loop_skip) (simp add: not_usable_iff)
    then show ?thesis using ext[of "emit (WarnSkip p) s"] by simp
  next
    case True
    then obtain key where key: "keys p = Some key" "key \<noteq> []"
      by (auto simp: usable_def split: option.splits)
    obtain r1 s1 where t: "tryProviderWithBackoff env p msgs key s = (r1, s1)"
      by (cases "tryProviderWithBackoff env p msgs key s")
    from tryProvider_trace[OF t] have e1: "\<exists>evs. trace s1 = trace s @ evs" by auto
    show ?thesis
    proof (cases r1)
      case (Inl e)
      with key t have "chat_loop env keys msgs (p # rest) s =
          chat_loop env keys msgs rest (emit (ErrorPermanent p e) s1)" by simp
      then show ?thesis using ext[of "emit (ErrorPermanent p e) s1"] e1 by auto
    next
      case (Inr v)
      show ?thesis
      proof (cases "truthy v")
        case False
        with Inr key t have "chat_loop env keys msgs (p # rest) s = chat_loop env keys msgs rest s1"
          by simp
        then show ?thesis using ext[OF e1] by simp
      next
        case tr: True
        obtain r2 s2 where pr: "parseResponse p v s1 = (r2, s2)"
          by (cases "parseResponse p v s1")
        from parseResponse_trace[OF pr] e1 have e2: "\<exists>evs. trace s2 = trace s @ evs" by auto
        show ?thesis
        proof (cases r2)
          case (Inl e)
          with Inr tr pr key t have "chat_loop env keys msgs (p # rest) s =
              chat_loop env keys msgs rest (emit (ErrorPermanent p e) s2)" by simp
          then show ?thesis using ext[of "emit (ErrorPermanent p e) s2"] e2 by auto
        next
          case (Inr c)
          with \<open>r1 = Inr v\<close> tr pr key t have "snd (chat_loop env keys msgs (p # rest) s) = s2" by simp
          with e2 show ?thesis by simp
        qed
      qed
    qed
  qed
qed

lemma all_skipped:
  "\<forall>q\<in>set ps. keys q = None \<or> keys q = Some [] \<Longrightarrow>
   chat_loop env keys msgs ps s = (Inl AllProvidersFailed, s\<lparr>trace := trace s @ map WarnSkip ps\<rparr>)"
  by (induction ps arbitrary: s) (auto simp: emit_def)

lemma chat_loop_skipped:
  "\<forall>m\<in>set mid. keys m = None \<or> keys m = Some [] \<Longrightarrow>
   chat_loop env keys msgs (mid @ rest) s = chat_loop env keys msgs rest (skipped mid s)"
proof (induction mid arbitrary: s)
  case Nil
  show ?case by (simp add: skipped_def)
next
  case (Cons m mid)
  then have "chat_loop env keys msgs ((m # mid) @ rest) s =
      chat_loop env keys msgs rest (skipped mid (emit (WarnSkip m) s))"
    by auto
  then show ?case by (simp add: skipped_def emit_def)
qed

lemma chat_loop_head_trace:
  assumes "keys q = Some k" "k \<noteq> []"
  shows "\<exists>more. trace (snd (chat_loop env keys msgs (q # tail) s)) =
           trace s @ Fetch q (buildRequest q msgs k) # more"
proof -
  obtain r1 s1 where t: "tryProviderWithBackoff env q msgs k s = (r1, s1)"
    by (cases "tryProviderWithBackoff env q msgs k s")
  from tryProvider_trace[OF t] obtain m1 where
    m1: "trace s1 = trace s @ Fetch q (buildRequest q msgs k) # m1" by blast
  have ext: "\<exists>more. trace (snd (chat_loop env keys msgs tail s2)) =
           trace s @ Fetch q (buildRequest q msgs k) # more"
    if "\<exists>evs. trace s2 = trace s1 @ evs" for s2
    using chat_loop_trace[of env keys msgs tail s2] that m1 by auto
  show ?thesis
  proof (cases r1)
    case (Inl e)
    with assms t have "chat_loop env keys msgs (q # tail) s =
        chat_loop env keys msgs tail (emit (ErrorPermanent q e) s1)" by simp
    then show ?thesis using ext[of "emit (ErrorPermanent q e) s1"] by simp
  next
    case (Inr v)
    show ?thesis
    proof (cases "truthy v")
      case False
      with Inr assms t have "chat_loop env keys msgs (q # tail) s = chat_loop env keys msgs tail s1"
        by simp
      then show ?thesis using ext[of s1] by simp
    next
      case tr: True
      obtain r2 s2 where pr: "parseResponse q v s1 = (r2, s2)"
        by (cases "parseResponse q v s1")
      from parseResponse_trace[OF pr] have e2: "\<exists>evs. trace s2 = trace s1 @ evs" .
      show ?thesis
      proof (cases r2)
        case (Inl e)
        with Inr tr pr assms t have "chat_loop env keys msgs (q # tail) s =
            chat_loop env keys msgs tail (emit (ErrorPermanent q e) s2)" by simp
        moreover from e2 have "\<exists>evs. trace (emit (ErrorPermanent q e) s2) = trace s1 @ evs" by auto
        ultimately show ?thesis using ext[of "emit (ErrorPermanent q e) s2"] by simp
      next
        case (Inr c)
        with \<open>r1 = Inr v\<close> tr pr assms t have "snd (chat_loop env keys msgs (q # tail) s) = s2" by simp
        with e2 m1 show ?thesis by auto
      qed
    qed
  qed
qed

lemma chat_loop_next_trace:
  assumes "\<forall>m\<in>set mid. keys m = None \<or> keys m = Some []" "keys q = Some k" "k \<noteq> []"
  shows "\<exists>more. trace (snd (chat_loop env keys msgs (mid @ q # tail) s)) =
           trace s @ map WarnSkip mid @ Fetch q (buildRequest q msgs k) # more"
  using chat_loop_head_trace[of keys q k env msgs tail "skipped mid s"] assms(2,3)
  by (simp add: chat_loop_skipped[OF assms(1)] skipped_def)

lemma chat_loop_next_result:
  assumes "\<forall>m\<in>set mid. keys m = None \<or> keys m = Some []" "keys q = Some k" "k \<noteq> []"
    and "tryProviderWithBackoff env q msgs k (skipped mid s) = (Inr v, s2)" "truthy v"
    and "parseResponse q v s2 = (Inr c, s3)"
  shows "chat_loop env keys msgs (mid @ q # tail) s =
           (Inr \<lparr>result_content = c, result_provider = q\<rparr>, s3)"
  using assms(2-) by (simp add: chat_loop_skipped[OF assms(1)])

lemma chat_loop_passedOver:
  "passedOver env keys msgs ps s = Some s1 \<Longrightarrow>
   chat_loop env keys msgs (ps @ rest) s = chat_loop env keys msgs rest s1"
  by (induction ps arbitrary: s) (auto split: option.splits if_splits prod.splits sum.splits)

lemma passedOver_calls:
  "passedOver env keys msgs ps s = Some s1 \<Longrightarrow>
   \<exists>new. calls s1 = calls s @ new \<and> set new \<subseteq> set ps"
proof -
  assume a: "passedOver env keys msgs ps s = Some s1"
  from chat_loop_passedOver[OF a, of "[]"] have "chat_loop env keys msgs ps s = (Inl AllProvidersFailed, s1)"
    by simp
  from chat_loop_calls[OF this] show ?thesis by auto
qed

section \<open>Retry Policy: the ceiling\<close>

lemma tryLoop_three_failures:
  assumes "makeApiCall env p msgs key s = (Inl e1, s1)" "retryable e1"
    and "makeApiCall env p msgs key (backoff env p e1 0 s1) = (Inl e2, s2)" "retryable e2"
    and "makeApiCall env p msgs key (backoff env p e2 1 s2) = (Inl e3, s3)"
  shows "tryProviderWithBackoff env p msgs key s =
           (Inl e3, if retryable e3 then backoff env p e3 2 s3 else s3)"
proof -
  have a0: "(0::nat) < MAX_RETRIES" and a1: "(0::nat) + 1 < MAX_RETRIES"
    and a2: "(0::nat) + 1 + 1 < MAX_RETRIES" and a3: "\<not> (0::nat) + 1 + 1 + 1 < MAX_RETRIES"
    by (simp_all add: MAX_RETRIES_def)
  have "tryProviderWithBackoff env p msgs key s = tryLoop env p msgs key (0 + 1) e1 (backoff env p e1 0 s1)"
    unfolding tryProviderWithBackoff_def using assms(1,2) by (rule tryLoop_retry[OF a0])
  also have "\<dots> = tryLoop env p msgs key (0 + 1 + 1) e2 (backoff env p e2 (0 + 1) s2)"
    using assms(3,4) by (intro tryLoop_retry[OF a1]) simp_all
  also have "\<dots> = (Inl e3, if retryable e3 then backoff env p e3 2 s3 else s3)"
  proof (cases "retryable e3")
    case False
    with assms(5) show ?thesis using tryLoop_fatal[OF a2, of env p msgs key _ e3 s3] by simp
  next
    case True
    with assms(5) have "tryLoop env p msgs key (0 + 1 + 1) e2 (backoff env p e2 (0 + 1) s2) =
        tryLoop env p msgs key (0 + 1 + 1 + 1) e3 (backoff env p e3 (0 + 1 + 1) s3)"
      by (intro tryLoop_retry[OF a2]) simp_all
    also have "\<dots> = (Inl e3, backoff env p e3 (0 + 1 + 1) s3)"
      by (rule tryLoop_done[OF a3])
    finally show ?thesis using True by (simp add: numeral_2_eq_2)
  qed
  finally show ?thesis .
qed

lemma chat_loop_after_failure_trace:
  assumes "keys p = Some key" "key \<noteq> []" "tryProviderWithBackoff env p msgs key s = (Inl e, s')"
    and "\<forall>m\<in>set mid. keys m = None \<or> keys m = Some []" "keys q = Some key2" "key2 \<noteq> []"
  shows "\<exists>more. trace (snd (chat_loop env keys msgs (p # mid @ q # tail) s)) =
           trace s' @ ErrorPermanent p e # map WarnSkip mid @ Fetch q (buildRequest q msgs key2) # more"
proof -
  from assms(1-3) have "chat_loop env keys msgs (p # mid @ q # tail) s =
      chat_loop env keys msgs (mid @ q # tail) (emit (ErrorPermanent p e) s')"
    by simp
  with chat_loop_next_trace[OF assms(4-6), of env msgs tail "emit (ErrorPermanent p e) s'"]
  show ?thesis by simp
qed

lemma chat_loop_after_failure_result:
  assumes "keys p = Some key" "key \<noteq> []" "tryProviderWithBackoff env p msgs key s = (Inl e, s')"
    and "\<forall>m\<in>set mid. keys m = None \<or> keys m = Some []" "keys q = Some key2" "key2 \<noteq> []"
    and "tryProviderWithBackoff env q msgs key2 (skipped mid (emit (ErrorPermanent p e) s')) = (Inr v, s2)"
    and "truthy v" "parseResponse q v s2 = (Inr c, s3)"
  shows "chat_loop env keys msgs (p # mid @ q # tail) s =
           (Inr \<lparr>result_content = c, result_provider = q\<rparr>, s3)"
proof -
  from assms(1-3) have "chat_loop env keys msgs (p # mid @ q # tail) s =
      chat_loop env keys msgs (mid @ q # tail) (emit (ErrorPermanent p e) s')"
    by simp
  with chat_loop_next_result[OF assms(4-9)] show ?thesis by simp
qed

text \<open>
  Claim C6. The retry policy sends at most three requests to its provider. When the
  first two attempts fail with retryable errors and the third attempt fails too, the
  policy throws the error of that third attempt. Whatever error the policy throws, the
  controller goes on with the rest of the cascade: right after the policy's last event
  the trace has the error logged against the provider, then the skip warnings of the
  providers without a credential that follow, then the first request to the next provider
  that has one; and when that provider's retry policy returns a truthy body from which
  extraction does not throw, the run resolves with it.
\<close>

theorem retry_ceiling:
  "(\<exists>n\<le>3. calls (snd (tryProviderWithBackoff env p msgs key s)) = calls s @ replicate n p) \<and>
   (\<forall>e1 s1 e2 s2 e3 s3.
      makeApiCall env p msgs key s = (Inl e1, s1) \<and> retryable e1 \<and>
      makeApiCall env p msgs key (backoff env p e1 0 s1) = (Inl e2, s2) \<and> retryable e2 \<and>
      makeApiCall env p msgs key (backoff env p e2 1 s2) = (Inl e3, s3)
      \<longrightarrow> fst (tryProviderWithBackoff env p msgs key s) = Inl e3) \<and>
   (\<forall>e s' rest.
      keys p = Some key \<and> key \<noteq> [] \<and> tryProviderWithBackoff env p msgs key s = (Inl e, s')
      \<longrightarrow> chat_loop env keys msgs (p # rest) s =
            chat_loop env keys msgs rest (emit (ErrorPermanent p e) s')) \<and>
   (\<forall>e s' mid q key2 tail.
      keys p = Some key \<and> key \<noteq> [] \<and> tryProviderWithBackoff env p msgs key s = (Inl e, s') \<and>
      (\<forall>m\<in>set mid. keys m = None \<or> keys m = Some []) \<and> keys q = Some key2 \<and> key2 \<noteq> []
      \<longrightarrow> (\<exists>more. trace (snd (chat_loop env keys msgs (p # mid @ q # tail) s)) =
                  trace s' @ ErrorPermanent p e # map WarnSkip mid @
                  Fetch q (buildRequest q msgs key2) # more) \<and>
           (\<forall>v s2 c s3.
              tryProviderWithBackoff env q msgs key2 (skipped mid (emit (ErrorPermanent p e) s')) = (Inr v, s2) \<and>
              truthy v \<and> parseResponse q v s2 = (Inr c, s3)
              \<longrightarrow> chat_loop env keys msgs (p # mid @ q # tail) s =
                    (Inr \<lparr>result_content = c, result_provider = q\<rparr>, s3)))"
proof (intro conjI allI impI)
  obtain r s' where run: "tryLoop env p msgs key 0 UndefinedThrown s = (r, s')"
    by (cases "tryLoop env p msgs key 0 UndefinedThrown s")
  from tryLoop_calls[OF run] show "\<exists>n\<le>3. calls (snd (tryProviderWithBackoff env p msgs key s)) = calls s @ replicate n p"
    by (auto simp: tryProviderWithBackoff_def run MAX_RETRIES_def)
next
  fix e1 s1 e2 s2 e3 s3
  assume "makeApiCall env p msgs key s = (Inl e1, s1) \<and> retryable e1 \<and>
      makeApiCall env p msgs key (backoff env p e1 0 s1) = (Inl e2, s2) \<and> retryable e2 \<and>
      makeApiCall env p msgs key (backoff env p e2 1 s2) = (Inl e3, s3)"
  then show "fst (tryProviderWithBackoff env p msgs key s) = Inl e3"
    by (simp add: tryLoop_three_failures)
next
  fix e s' rest
  assume "keys p = Some key \<and> key \<noteq> [] \<and> tryProviderWithBackoff env p msgs key s = (Inl e, s')"
  then show "chat_loop env keys msgs (p # rest) s =
            chat_loop env keys msgs rest (emit (ErrorPermanent p e) s')"
    by (simp add: chat_loop_failed)
next
  fix e s' mid q key2 tail
  assume a: "keys p = Some key \<and> key \<noteq> [] \<and> tryProviderWithBackoff env p msgs key s = (Inl e, s') \<and>
      (\<forall>m\<in>set mid. keys m = None \<or> keys m = Some []) \<and> keys q = Some key2 \<and> key2 \<noteq> []"
  then show "\<exists>more. trace (snd (chat_loop env keys msgs (p # mid @ q # tail) s)) =
                  trace s' @ ErrorPermanent p e # map WarnSkip mid @
                  Fetch q (buildRequest q msgs key2) # more"
    using chat_loop_after_failure_trace[of keys p key env msgs s e s' mid q key2 tail] by blast
next
  fix e s' mid q key2 tail v s2 c s3
  assume a: "keys p = Some key \<and> key \<noteq> [] \<and> tryProviderWithBackoff env p msgs key s = (Inl e, s') \<and>
      (\<forall>m\<in>set mid. keys m = None \<or> keys m = Some []) \<and> keys q = Some key2 \<and> key2 \<noteq> []"
    and b: "tryProviderWithBackoff env q msgs key2 (skipped mid (emit (ErrorPermanent p e) s')) = (Inr v, s2) \<and>
              truthy v \<and> parseResponse q v s2 = (Inr c, s3)"
  then show "chat_loop env keys msgs (p # mid @ q # tail) s =
                    (Inr \<lparr>result_content = c, result_provider = q\<rparr>, s3)"
    using chat_loop_after_failure_result[of keys p key env msgs s e s' mid q key2 v s2 c s3 tail] by blast
qed

lemma makeApiCall_envAlways:
  "\<not> (200 \<le> st \<and> st \<le> 299) \<Longrightarrow>
   makeApiCall (envAlways st) p msgs key s =
     (Inl (ApiCallError p st ''unavailable''),
      emit (Fetch p (buildRequest p msgs key)) (s\<lparr>fetched := fetched s + 1\<rparr>))"
  by (simp add: makeApiCall_def envAlways_def errorResponse_def ok_def Let_def)

lemma not_ok_500: "\<not> (200 \<le> (500::nat) \<and> (500::nat) \<le> 299)"
  by simp

lemma retryable_500: "retryable (ApiCallError p 500 txt)"
  by (simp add: retryable_def)

lemma fallback_cerebras:
  "tryProviderWithBackoff envFallback cerebras hello ''fake-cerebras-key'' s0 =
     (Inl (ApiCallError cerebras 500 []),
      snd (tryProviderWithBackoff envFallback cerebras hello ''fake-cerebras-key'' s0))"
  by (simp add: run_defs envFallback_def)

lemma fallback_next:
  "tryProviderWithBackoff envFallback gemini hello ''fake-gemini-key''
     (skipped [] (emit (ErrorPermanent cerebras (ApiCallError cerebras 500 []))
        (snd (tryProviderWithBackoff envFallback cerebras hello ''fake-cerebras-key'' s0)))) =
   (Inr (geminiReply ''Response from Gemini''),
    snd (tryProviderWithBackoff envFallback gemini hello ''fake-gemini-key''
     (skipped [] (emit (ErrorPermanent cerebras (ApiCallError cerebras 500 []))
        (snd (tryProviderWithBackoff envFallback cerebras hello ''fake-cerebras-key'' s0))))))"
  by (simp add: run_defs envFallback_def skipped_def)

text \<open>
  Claim C6 at an endpoint that always answers 500, and in the scenario of the test file:
  the primary endpoint answers 500 on all three attempts, the second provider answers.
\<close>

theorem retry_ceiling_witness:
  "(\<exists>n\<le>3. calls (snd (tryProviderWithBackoff (envAlways 500) cerebras hello ''fake-cerebras-key'' s0)) =
            calls s0 @ replicate n cerebras) \<and>
   fst (tryProviderWithBackoff (envAlways 500) cerebras hello ''fake-cerebras-key'' s0) =
     Inl (ApiCallError cerebras 500 ''unavailable'') \<and>
   chat_loop (envAlways 500) twoKeys hello [cerebras, gemini] s0 =
     chat_loop (envAlways 500) twoKeys hello [gemini]
       (emit (ErrorPermanent cerebras (ApiCallError cerebras 500 ''unavailable''))
          (snd (tryProviderWithBackoff (envAlways 500) cerebras hello ''fake-cerebras-key'' s0))) \<and>
   twoKeys cerebras = Some ''fake-cerebras-key'' \<and> twoKeys gemini = Some ''fake-gemini-key'' \<and>
   fst (tryProviderWithBackoff envFallback cerebras hello ''fake-cerebras-key'' s0) =
     Inl (ApiCallError cerebras 500 []) \<and>
   (\<exists>more. trace (snd (chat_loop envFallback twoKeys hello (cerebras # [] @ gemini # [deepseek]) s0)) =
      trace (snd (tryProviderWithBackoff envFallback cerebras hello ''fake-cerebras-key'' s0)) @
      ErrorPermanent cerebras (ApiCallError cerebras 500 []) # map WarnSkip [] @
      Fetch gemini (buildRequest gemini hello ''fake-gemini-key'') # more) \<and>
   fst (chat_loop envFallback twoKeys hello (cerebras # [] @ gemini # [deepseek]) s0) =
     Inr \<lparr>result_content = JStr ''Response from Gemini'', result_provider = gemini\<rparr>"
proof -
  note T = retry_ceiling[of "envAlways 500" cerebras hello "''fake-cerebras-key''" s0 twoKeys]
  have A: "\<exists>n\<le>3. calls (snd (tryProviderWithBackoff (envAlways 500) cerebras hello ''fake-cerebras-key'' s0)) =
            calls s0 @ replicate n cerebras"
    using T by blast
  have B: "fst (tryProviderWithBackoff (envAlways 500) cerebras hello ''fake-cerebras-key'' s0) =
     Inl (ApiCallError cerebras 500 ''unavailable'')"
    apply (rule T[THEN conjunct2, THEN conjunct1, rule_format])
    apply (intro conjI)
        apply (rule makeApiCall_envAlways[OF not_ok_500])
       apply (rule retryable_500)
      apply (rule makeApiCall_envAlways[OF not_ok_500])
     apply (rule retryable_500)
    apply (rule makeApiCall_envAlways[OF not_ok_500])
    done
  have k: "twoKeys cerebras = Some ''fake-cerebras-key''" "''fake-cerebras-key'' \<noteq> []"
    "twoKeys gemini = Some ''fake-gemini-key''" "''fake-gemini-key'' \<noteq> []"
    by (simp_all add: twoKeys_def)
  have C: "chat_loop (envAlways 500) twoKeys hello [cerebras, gemini] s0 =
     chat_loop (envAlways 500) twoKeys hello [gemini]
       (emit (ErrorPermanent cerebras (ApiCallError cerebras 500 ''unavailable''))
          (snd (tryProviderWithBackoff (envAlways 500) cerebras hello ''fake-cerebras-key'' s0)))"
    apply (rule T[THEN conjunct2, THEN conjunct2, THEN conjunct1, rule_format])
    using B k by (simp add: prod_eq_iff)
  note U = retry_ceiling[of envFallback cerebras hello "''fake-cerebras-key''" s0 twoKeys,
             THEN conjunct2, THEN conjunct2, THEN conjunct2, rule_format,
             of "ApiCallError cerebras 500 []"
                "snd (tryProviderWithBackoff envFallback cerebras hello ''fake-cerebras-key'' s0)"
                "[]" gemini "''fake-gemini-key''"]
  have hyp: "twoKeys cerebras = Some ''fake-cerebras-key'' \<and> ''fake-cerebras-key'' \<noteq> [] \<and>
     tryProviderWithBackoff envFallback cerebras hello ''fake-cerebras-key'' s0 =
       (Inl (ApiCallError cerebras 500 []),
        snd (tryProviderWithBackoff envFallback cerebras hello ''fake-cerebras-key'' s0)) \<and>
     (\<forall>m\<in>set []. twoKeys m = None \<or> twoKeys m = Some []) \<and>
     twoKeys gemini = Some ''fake-gemini-key'' \<and> ''fake-gemini-key'' \<noteq> []"
    using k fallback_cerebras by simp
  from U[OF hyp, THEN conjunct1, of "[deepseek]"]
  have D: "\<exists>more. trace (snd (chat_loop envFallback twoKeys hello (cerebras # [] @ gemini # [deepseek]) s0)) =
      trace (snd (tryProviderWithBackoff envFallback cerebras hello ''fake-cerebras-key'' s0)) @
      ErrorPermanent cerebras (ApiCallError cerebras 500 []) # map WarnSkip [] @
      Fetch gemini (buildRequest gemini hello ''fake-gemini-key'') # more" .
  have pr: "parseResponse gemini (geminiReply ''Response from Gemini'') sx =
            (Inr (JStr ''Response from Gemini''), sx)" for sx
    by (simp add: parse_gemini_reply)
  have tr: "truthy (geminiReply ''Response from Gemini'')" by (simp add: geminiReply_def)
  from U[OF hyp, THEN conjunct2, rule_format, of "geminiReply ''Response from Gemini''" _
          "JStr ''Response from Gemini''" _ "[deepseek]"] fallback_next tr pr
  have E: "fst (chat_loop envFallback twoKeys hello (cerebras # [] @ gemini # [deepseek]) s0) =
     Inr \<lparr>result_content = JStr ''Response from Gemini'', result_provider = gemini\<rparr>"
    by simp
  from fallback_cerebras have F: "fst (tryProviderWithBackoff envFallback cerebras hello ''fake-cerebras-key'' s0) =
     Inl (ApiCallError cerebras 500 [])" by (metis fst_conv)
  from A B C D E F k show ?thesis by blast
qed

lemma envAlways_500_run:
  "tryProviderWithBackoff (envAlways 500) p msgs key s =
     (let e = ApiCallError p 500 ''unavailable'';
          request = Fetch p (buildRequest p msgs key);
          s1 = emit request (s\<lparr>fetched := fetched s + 1\<rparr>);
          b1 = backoff (envAlways 500) p e 0 s1;
          s2 = emit request (b1\<lparr>fetched := fetched b1 + 1\<rparr>);
          b2 = backoff (envAlways 500) p e 1 s2;
          s3 = emit request (b2\<lparr>fetched := fetched b2 + 1\<rparr>)
      in (Inl e, backoff (envAlways 500) p e 2 s3))"
  unfolding Let_def
  by (rule trans[OF tryLoop_three_failures[OF makeApiCall_envAlways retryable_500
          makeApiCall_envAlways retryable_500 makeApiCall_envAlways]])
     (simp_all add: retryable_500)

text \<open>
  Claim C4 says that no sleep follows a retryable failure of the final attempt. At an
  endpoint that always answers 500, with every jitter draw 0.5, the policy makes three
  requests and sleeps three times: the last thing it does before throwing the third
  error is to wait \<open>2000 * 2 ^ 2 + 500\<close> ms for a retry that never comes.
\<close>

theorem final_attempt_sleep:
  "fst (tryProviderWithBackoff (envAlways 500) cerebras [] ''k'' s0) =
     Inl (ApiCallError cerebras 500 ''unavailable'') \<and>
   calls (snd (tryProviderWithBackoff (envAlways 500) cerebras [] ''k'' s0)) =
     [cerebras, cerebras, cerebras] \<and>
   sleeps (snd (tryProviderWithBackoff (envAlways 500) cerebras [] ''k'' s0)) = [2500, 4500, 8500] \<and>
   last (trace (snd (tryProviderWithBackoff (envAlways 500) cerebras [] ''k'' s0))) = Sleep 8500"
  unfolding envAlways_500_run
  by (simp add: backoff_def backoffDelay_def Let_def calls_def sleeps_def emit_def
        s0_def envAlways_def INITIAL_BACKOFF_MS_def)

section \<open>Cascade Controller: skipped providers and unusable bodies\<close>

text \<open>
  Claim C9. A provider whose credential is missing or empty is passed over with nothing
  but the skip warning, and no request of the whole run goes to it. When no provider has
  a credential, \<open>chat\<close> rejects with the aggregate error after seven skip warnings and
  nothing else. When the providers at the head of the list have no credential and the
  one after them has, the trace continues with their skip warnings and then the first
  request to that provider; and when its retry policy returns a truthy body from which
  extraction does not throw, the run resolves with it.
\<close>

theorem skip_without_credential:
  "((keys p = None \<or> keys p = Some []) \<longrightarrow>
      chat_loop env keys msgs (p # rest) s = chat_loop env keys msgs rest (emit (WarnSkip p) s) \<and>
      (\<exists>new. calls (snd (chat env keys msgs s)) = calls s @ new \<and> p \<notin> set new)) \<and>
   ((\<forall>q. keys q = None \<or> keys q = Some []) \<longrightarrow>
      chat env keys msgs s =
        (Inl AllProvidersFailed, s\<lparr>trace := trace s @ map WarnSkip PROVIDER_CASCADE_ORDER\<rparr>)) \<and>
   (\<forall>mid q key tail.
      (\<forall>m\<in>set mid. keys m = None \<or> keys m = Some []) \<and> keys q = Some key \<and> key \<noteq> []
      \<longrightarrow> (\<exists>more. trace (snd (chat_loop env keys msgs (mid @ q # tail) s)) =
                  trace s @ map WarnSkip mid @ Fetch q (buildRequest q msgs key) # more) \<and>
           (\<forall>v s2 c s3.
              tryProviderWithBackoff env q msgs key (skipped mid s) = (Inr v, s2) \<and>
              truthy v \<and> parseResponse q v s2 = (Inr c, s3)
              \<longrightarrow> chat_loop env keys msgs (mid @ q # tail) s =
                    (Inr \<lparr>result_content = c, result_provider = q\<rparr>, s3)))"
proof (intro conjI impI allI)
  assume k: "keys p = None \<or> keys p = Some []"
  then show "chat_loop env keys msgs (p # rest) s = chat_loop env keys msgs rest (emit (WarnSkip p) s)"
    by (rule chat_loop_skip)
  obtain r s' where run: "chat_loop env keys msgs PROVIDER_CASCADE_ORDER s = (r, s')"
    by (cases "chat_loop env keys msgs PROVIDER_CASCADE_ORDER s")
  from chat_loop_calls[OF run] obtain new where
    "calls s' = calls s @ new" "set new \<subseteq> {q \<in> set PROVIDER_CASCADE_ORDER. usable keys q}" by blast
  moreover have "\<not> usable keys p" using k by (simp add: not_usable_iff)
  ultimately show "\<exists>new. calls (snd (chat env keys msgs s)) = calls s @ new \<and> p \<notin> set new"
    by (auto simp: chat_def run)
next
  assume "\<forall>q. keys q = None \<or> keys q = Some []"
  then show "chat env keys msgs s =
        (Inl AllProvidersFailed, s\<lparr>trace := trace s @ map WarnSkip PROVIDER_CASCADE_ORDER\<rparr>)"
    unfolding chat_def by (intro all_skipped) simp
next
  fix mid q key tail
  assume a: "(\<forall>m\<in>set mid. keys m = None \<or> keys m = Some []) \<and> keys q = Some key \<and> key \<noteq> []"
  then show "\<exists>more. trace (snd (chat_loop env keys msgs (mid @ q # tail) s)) =
                  trace s @ map WarnSkip mid @ Fetch q (buildRequest q msgs key) # more"
    using chat_loop_next_trace[of mid keys q key env msgs tail s] by blast
next
  fix mid q key tail v s2 c s3
  assume a: "(\<forall>m\<in>set mid. keys m = None \<or> keys m = Some []) \<and> keys q = Some key \<and> key \<noteq> []"
    and b: "tryProviderWithBackoff env q msgs key (skipped mid s) = (Inr v, s2) \<and>
              truthy v \<and> parseResponse q v s2 = (Inr c, s3)"
  then show "chat_loop env keys msgs (mid @ q # tail) s =
                    (Inr \<lparr>result_content = c, result_provider = q\<rparr>, s3)"
    using chat_loop_next_result[of mid keys q key env msgs s v s2 c s3 tail] by blast
qed

lemma skipCerebras_gemini:
  "tryProviderWithBackoff (envJson (geminiReply ''Response from Gemini'')) gemini hello ''fake-gemini-key''
      (skipped [cerebras] s0) =
   (Inr (geminiReply ''Response from Gemini''),
    emit (Fetch gemini (buildRequest gemini hello ''fake-gemini-key''))
      ((skipped [cerebras] s0)\<lparr>fetched := 1\<rparr>))"
  by (simp add: run_defs envJson_def skipped_def)

text \<open>
  Claim C9 with the empty credential of the test file and no other, and in the scenario
  of the test file: the primary provider's credential is empty, the second provider
  answers and the run resolves with it.
\<close>

theorem skip_without_credential_witness:
  "(emptyCerebrasKey cerebras = None \<or> emptyCerebrasKey cerebras = Some []) \<and>
   (\<forall>q. emptyCerebrasKey q = None \<or> emptyCerebrasKey q = Some []) \<and>
   chat_loop (envAlways 500) emptyCerebrasKey hello [cerebras, gemini] s0 =
     chat_loop (envAlways 500) emptyCerebrasKey hello [gemini] (emit (WarnSkip cerebras) s0) \<and>
   (\<exists>new. calls (snd (chat (envAlways 500) emptyCerebrasKey hello s0)) = calls s0 @ new \<and>
          cerebras \<notin> set new) \<and>
   chat (envAlways 500) emptyCerebrasKey hello s0 =
     (Inl AllProvidersFailed, s0\<lparr>trace := trace s0 @ map WarnSkip PROVIDER_CASCADE_ORDER\<rparr>) \<and>
   skipCerebras cerebras = Some [] \<and> skipCerebras gemini = Some ''fake-gemini-key'' \<and>
   (\<exists>more. trace (snd (chat_loop (envJson (geminiReply ''Response from Gemini'')) skipCerebras hello
                          ([cerebras] @ gemini # [deepseek, openrouter, mistral, together, groq]) s0)) =
      trace s0 @ map WarnSkip [cerebras] @ Fetch gemini (buildRequest gemini hello ''fake-gemini-key'') # more) \<and>
   chat_loop (envJson (geminiReply ''Response from Gemini'')) skipCerebras hello
       ([cerebras] @ gemini # [deepseek, openrouter, mistral, together, groq]) s0 =
     (Inr \<lparr>result_content = JStr ''Response from Gemini'', result_provider = gemini\<rparr>,
      emit (Fetch gemini (buildRequest gemini hello ''fake-gemini-key''))
        ((skipped [cerebras] s0)\<lparr>fetched := 1\<rparr>))"
proof -
  have h1: "emptyCerebrasKey cerebras = None \<or> emptyCerebrasKey cerebras = Some []"
    by (simp add: emptyCerebrasKey_def)
  have h2: "\<forall>q. emptyCerebrasKey q = None \<or> emptyCerebrasKey q = Some []"
    by (simp add: emptyCerebrasKey_def)
  note T = skip_without_credential[of emptyCerebrasKey cerebras "envAlways 500" hello "[gemini]" s0]
  from T h1 h2 have old:
    "chat_loop (envAlways 500) emptyCerebrasKey hello [cerebras, gemini] s0 =
       chat_loop (envAlways 500) emptyCerebrasKey hello [gemini] (emit (WarnSkip cerebras) s0)"
    "\<exists>new. calls (snd (chat (envAlways 500) emptyCerebrasKey hello s0)) = calls s0 @ new \<and>
          cerebras \<notin> set new"
    "chat (envAlways 500) emptyCerebrasKey hello s0 =
     (Inl AllProvidersFailed, s0\<lparr>trace := trace s0 @ map WarnSkip PROVIDER_CASCADE_ORDER\<rparr>)"
    by blast+
  have k: "skipCerebras cerebras = Some []" "skipCerebras gemini = Some ''fake-gemini-key''"
    by (simp_all add: skipCerebras_def)
  have hyp: "(\<forall>m\<in>set [cerebras]. skipCerebras m = None \<or> skipCerebras m = Some []) \<and>
             skipCerebras gemini = Some ''fake-gemini-key'' \<and> ''fake-gemini-key'' \<noteq> []"
    by (simp add: skipCerebras_def)
  note U = skip_without_credential[of skipCerebras cerebras "envJson (geminiReply ''Response from Gemini'')"
             hello "[]" s0, THEN conjunct2, THEN conjunct2, rule_format, OF hyp]
  have tr: "truthy (geminiReply ''Response from Gemini'')" by (simp add: geminiReply_def)
  have pr: "parseResponse gemini (geminiReply ''Response from Gemini'') sx =
            (Inr (JStr ''Response from Gemini''), sx)" for sx
    by (simp add: parse_gemini_reply)
  from U[THEN conjunct1, of "[deepseek, openrouter, mistral, together, groq]"]
  have D: "\<exists>more. trace (snd (chat_loop (envJson (geminiReply ''Response from Gemini'')) skipCerebras hello
                          ([cerebras] @ gemini # [deepseek, openrouter, mistral, together, groq]) s0)) =
      trace s0 @ map WarnSkip [cerebras] @ Fetch gemini (buildRequest gemini hello ''fake-gemini-key'') # more" .
  from U[THEN conjunct2, rule_format, of "geminiReply ''Response from Gemini''" _
          "JStr ''Response from Gemini''" _ "[deepseek, openrouter, mistral, together, groq]"]
       skipCerebras_gemini tr pr
  have E: "chat_loop (envJson (geminiReply ''Response from Gemini'')) skipCerebras hello
       ([cerebras] @ gemini # [deepseek, openrouter, mistral, together, groq]) s0 =
     (Inr \<lparr>result_content = JStr ''Response from Gemini'', result_provider = gemini\<rparr>,
      emit (Fetch gemini (buildRequest gemini hello ''fake-gemini-key''))
        ((skipped [cerebras] s0)\<lparr>fetched := 1\<rparr>))"
    by blast
  from h1 h2 old k D E show ?thesis by blast
qed

lemma falsy_call:
  assumes "fetch env (fetched s) (buildRequest p msgs key) = Inr response" "ok response"
    "bodyJson response = Inr v"
  shows "tryProviderWithBackoff env p msgs key s =
           (Inr v, emit (Fetch p (buildRequest p msgs key)) (s\<lparr>fetched := fetched s + 1\<rparr>))"
proof -
  have "makeApiCall env p msgs key s =
          (Inr v, emit (Fetch p (buildRequest p msgs key)) (s\<lparr>fetched := fetched s + 1\<rparr>))"
    using assms by (simp add: makeApiCall_def Let_def)
  then show ?thesis
    unfolding tryProviderWithBackoff_def by (intro tryLoop_success) (simp_all add: MAX_RETRIES_def)
qed

lemma all_falsy:
  assumes env: "\<forall>n r. \<exists>response v. fetch env n r = Inr response \<and> ok response \<and> bodyJson response = Inr v \<and> \<not> truthy v"
  shows "fst (chat_loop env keys msgs ps s) = Inl AllProvidersFailed \<and>
         (\<forall>ev \<in> set (trace (snd (chat_loop env keys msgs ps s))).
            ev \<in> set (trace s) \<or> (\<exists>q r. ev = Fetch q r) \<or> (\<exists>q. ev = WarnSkip q))"
proof (induction ps arbitrary: s)
  case Nil
  show ?case by simp
next
  case (Cons p rest)
  show ?case
  proof (cases "usable keys p")
    case False
    then have "chat_loop env keys msgs (p # rest) s = chat_loop env keys msgs rest (emit (WarnSkip p) s)"
      by (intro chat_loop_skip) (simp add: not_usable_iff)
    with Cons.IH[of "emit (WarnSkip p) s"] show ?thesis by auto
  next
    case True
    then obtain key where key: "keys p = Some key" "key \<noteq> []"
      by (auto simp: usable_def split: option.splits)
    from env obtain response v where
      r: "fetch env (fetched s) (buildRequest p msgs key) = Inr response" "ok response"
         "bodyJson response = Inr v" "\<not> truthy v" by blast
    let ?s1 = "emit (Fetch p (buildRequest p msgs key)) (s\<lparr>fetched := fetched s + 1\<rparr>)"
    have "chat_loop env keys msgs (p # rest) s = chat_loop env keys msgs rest ?s1"
      using key falsy_call[OF r(1-3)] r(4) by simp
    with Cons.IH[of ?s1] show ?thesis by auto
  qed
qed

lemma every_falsy_chat_loop:
  "everySkippedOrFalsy env keys msgs ps s \<Longrightarrow>
   fst (chat_loop env keys msgs ps s) = Inl AllProvidersFailed \<and>
   (\<exists>evs. trace (snd (chat_loop env keys msgs ps s)) = trace s @ evs \<and> errors_of evs = [] \<and>
          (\<forall>q\<in>set ps. usable keys q \<longrightarrow> q \<in> set (calls_of evs)))"
proof (induction ps arbitrary: s)
  case Nil
  show ?case by simp
next
  case (Cons p rest)
  show ?case
  proof (cases "usable keys p")
    case False
    then have k: "keys p = None \<or> keys p = Some []" by (simp add: not_usable_iff)
    then have step: "chat_loop env keys msgs (p # rest) s = chat_loop env keys msgs rest (emit (WarnSkip p) s)"
      by (rule chat_loop_skip)
    from k Cons.prems have "everySkippedOrFalsy env keys msgs rest (emit (WarnSkip p) s)" by auto
    from Cons.IH[OF this] obtain evs where
      r: "fst (chat_loop env keys msgs rest (emit (WarnSkip p) s)) = Inl AllProvidersFailed"
      and evs: "trace (snd (chat_loop env keys msgs rest (emit (WarnSkip p) s))) = trace (emit (WarnSkip p) s) @ evs"
        "errors_of evs = []" "\<forall>q\<in>set rest. usable keys q \<longrightarrow> q \<in> set (calls_of evs)"
      by blast
    show ?thesis unfolding step using r evs False
      by (intro conjI exI[of _ "WarnSkip p # evs"]) auto
  next
    case True
    then obtain key where key: "keys p = Some key" "key \<noteq> []"
      by (auto simp: usable_def split: option.splits)
    obtain r1 s1 where t: "tryProviderWithBackoff env p msgs key s = (r1, s1)"
      by (cases "tryProviderWithBackoff env p msgs key s")
    with key Cons.prems obtain v where v: "r1 = Inr v" "\<not> truthy v"
      and nxt: "everySkippedOrFalsy env keys msgs rest s1"
      by (cases r1) auto
    from key t v have step: "chat_loop env keys msgs (p # rest) s = chat_loop env keys msgs rest s1"
      by simp
    from tryProvider_trace[OF t] obtain more where
      m: "trace s1 = trace s @ Fetch p (buildRequest p msgs key) # more" "errors_of more = []" by blast
    from Cons.IH[OF nxt] obtain evs where
      r: "fst (chat_loop env keys msgs rest s1) = Inl AllProvidersFailed"
      and evs: "trace (snd (chat_loop env keys msgs rest s1)) = trace s1 @ evs"
        "errors_of evs = []" "\<forall>q\<in>set rest. usable keys q \<longrightarrow> q \<in> set (calls_of evs)"
      by blast
    show ?thesis unfolding step using r evs m
      by (intro conjI exI[of _ "Fetch p (buildRequest p msgs key) # more @ evs"])
         (auto simp: errors_of_append calls_of_append)
  qed
qed

lemma env_falsy_exact:
  assumes env: "\<forall>n r. \<exists>response v. fetch env n r = Inr response \<and> ok response \<and> bodyJson response = Inr v \<and> \<not> truthy v"
  shows "trace (snd (chat_loop env keys msgs ps s)) = trace s @ map (passedEvent keys msgs) ps"
proof (induction ps arbitrary: s)
  case Nil
  show ?case by simp
next
  case (Cons p rest)
  show ?case
  proof (cases "usable keys p")
    case False
    then have k: "keys p = None \<or> keys p = Some []" by (simp add: not_usable_iff)
    then have "chat_loop env keys msgs (p # rest) s = chat_loop env keys msgs rest (emit (WarnSkip p) s)"
      by (rule chat_loop_skip)
    with Cons.IH[of "emit (WarnSkip p) s"] k show ?thesis by (auto simp: passedEvent_def)
  next
    case True
    then obtain key where key: "keys p = Some key" "key \<noteq> []"
      by (auto simp: usable_def split: option.splits)
    from env obtain response v where
      r: "fetch env (fetched s) (buildRequest p msgs key) = Inr response" "ok response"
         "bodyJson response = Inr v" "\<not> truthy v" by blast
    let ?s1 = "emit (Fetch p (buildRequest p msgs key)) (s\<lparr>fetched := fetched s + 1\<rparr>)"
    have "chat_loop env keys msgs (p # rest) s = chat_loop env keys msgs rest ?s1"
      using key falsy_call[OF r(1-3)] r(4) by simp
    with Cons.IH[of ?s1] key show ?thesis by (simp add: passedEvent_def)
  qed
qed

text \<open>
  Claim C10. When the retry policy of a provider with a credential returns a falsy body,
  on whichever attempt, the controller goes on with the rest of the cascade from the very
  state the policy left: the run does not resolve with that provider, and nothing is
  logged for it. When no later provider has a credential the run rejects with the
  aggregate error after their skip warnings; otherwise the trace continues with the skip
  warnings and the first request to the next provider that has a credential, and the run
  resolves with that provider when its body is usable. A request answered at once with an
  ok status and a falsy body is the special case of the first attempt. When every
  provider is skipped or has its policy return a falsy body, \<open>chat\<close> rejects with the
  aggregate error, no failure is logged, and every provider with a credential was
  requested. When every request is answered with an ok status and a falsy body, the
  trace of the run is exactly one request per provider with a credential and one skip
  warning per provider without, in cascade order.
\<close>

theorem falsy_body_falls_through:
  "(keys p = Some key \<and> key \<noteq> [] \<and>
    tryProviderWithBackoff env p msgs key s = (Inr v, s1) \<and> \<not> truthy v \<longrightarrow>
      chat_loop env keys msgs (p # rest) s = chat_loop env keys msgs rest s1 \<and>
      (p \<notin> set rest \<longrightarrow>
         (\<forall>r s'. chat_loop env keys msgs (p # rest) s = (Inr r, s') \<longrightarrow> result_provider r \<noteq> p)) \<and>
      ((\<forall>m\<in>set rest. keys m = None \<or> keys m = Some []) \<longrightarrow>
         chat_loop env keys msgs (p # rest) s = (Inl AllProvidersFailed, skipped rest s1)) \<and>
      (\<forall>mid q key2 tail.
         (\<forall>m\<in>set mid. keys m = None \<or> keys m = Some []) \<and> keys q = Some key2 \<and> key2 \<noteq> []
         \<longrightarrow> (\<exists>more. trace (snd (chat_loop env keys msgs (p # mid @ q # tail) s)) =
                     trace s1 @ map WarnSkip mid @ Fetch q (buildRequest q msgs key2) # more) \<and>
              (\<forall>w s2 c s3.
                 tryProviderWithBackoff env q msgs key2 (skipped mid s1) = (Inr w, s2) \<and>
                 truthy w \<and> parseResponse q w s2 = (Inr c, s3)
                 \<longrightarrow> chat_loop env keys msgs (p # mid @ q # tail) s =
                       (Inr \<lparr>result_content = c, result_provider = q\<rparr>, s3)))) \<and>
   (keys p = Some key \<and> key \<noteq> [] \<and>
    fetch env (fetched s) (buildRequest p msgs key) = Inr response \<and> ok response \<and>
    bodyJson response = Inr v \<and> \<not> truthy v \<longrightarrow>
      chat_loop env keys msgs (p # rest) s =
        chat_loop env keys msgs rest
          (emit (Fetch p (buildRequest p msgs key)) (s\<lparr>fetched := fetched s + 1\<rparr>))) \<and>
   (everySkippedOrFalsy env keys msgs PROVIDER_CASCADE_ORDER s \<longrightarrow>
      fst (chat env keys msgs s) = Inl AllProvidersFailed \<and>
      (\<exists>evs. trace (snd (chat env keys msgs s)) = trace s @ evs \<and> errors_of evs = [] \<and>
             (\<forall>q\<in>set PROVIDER_CASCADE_ORDER. usable keys q \<longrightarrow> q \<in> set (calls_of evs)))) \<and>
   ((\<forall>n r. \<exists>response v. fetch env n r = Inr response \<and> ok response \<and>
                          bodyJson response = Inr v \<and> \<not> truthy v) \<longrightarrow>
      fst (chat env keys msgs s) = Inl AllProvidersFailed \<and>
      (\<forall>ev \<in> set (trace (snd (chat env keys msgs s))).
         ev \<in> set (trace s) \<or> (\<exists>q r. ev = Fetch q r) \<or> (\<exists>q. ev = WarnSkip q)) \<and>
      trace (snd (chat env keys msgs s)) =
        trace s @ map (passedEvent keys msgs) PROVIDER_CASCADE_ORDER)"
proof (intro conjI impI allI)
  assume a: "keys p = Some key \<and> key \<noteq> [] \<and>
    tryProviderWithBackoff env p msgs key s = (Inr v, s1) \<and> \<not> truthy v"
  then show step: "chat_loop env keys msgs (p # rest) s = chat_loop env keys msgs rest s1"
    by simp
  show "chat_loop env keys msgs (p # rest) s = (Inl AllProvidersFailed, skipped rest s1)"
    if "\<forall>m\<in>set rest. keys m = None \<or> keys m = Some []"
    unfolding step using all_skipped[OF that, of env msgs s1] by (simp add: skipped_def)
  show "result_provider r \<noteq> p"
    if "p \<notin> set rest" "chat_loop env keys msgs (p # rest) s = (Inr r, s')" for r s'
    using that chat_loop_provider[of env keys msgs rest s1 r s'] step by auto
next
  fix mid q key2 tail
  assume a: "keys p = Some key \<and> key \<noteq> [] \<and>
    tryProviderWithBackoff env p msgs key s = (Inr v, s1) \<and> \<not> truthy v"
    and b: "(\<forall>m\<in>set mid. keys m = None \<or> keys m = Some []) \<and> keys q = Some key2 \<and> key2 \<noteq> []"
  from a have step: "chat_loop env keys msgs (p # mid @ q # tail) s =
      chat_loop env keys msgs (mid @ q # tail) s1" by simp
  from b show "\<exists>more. trace (snd (chat_loop env keys msgs (p # mid @ q # tail) s)) =
                     trace s1 @ map WarnSkip mid @ Fetch q (buildRequest q msgs key2) # more"
    unfolding step using chat_loop_next_trace[of mid keys q key2 env msgs tail s1] by blast
  show "chat_loop env keys msgs (p # mid @ q # tail) s =
          (Inr \<lparr>result_content = c, result_provider = q\<rparr>, s3)"
    if "tryProviderWithBackoff env q msgs key2 (skipped mid s1) = (Inr w, s2) \<and>
        truthy w \<and> parseResponse q w s2 = (Inr c, s3)" for w s2 c s3
    unfolding step using that b chat_loop_next_result[of mid keys q key2 env msgs s1 w s2 c s3 tail]
    by blast
next
  assume a: "keys p = Some key \<and> key \<noteq> [] \<and>
    fetch env (fetched s) (buildRequest p msgs key) = Inr response \<and> ok response \<and>
    bodyJson response = Inr v \<and> \<not> truthy v"
  then have "tryProviderWithBackoff env p msgs key s =
           (Inr v, emit (Fetch p (buildRequest p msgs key)) (s\<lparr>fetched := fetched s + 1\<rparr>))"
    using falsy_call[of env s p msgs key response v] by blast
  with a show "chat_loop env keys msgs (p # rest) s =
        chat_loop env keys msgs rest
          (emit (Fetch p (buildRequest p msgs key)) (s\<lparr>fetched := fetched s + 1\<rparr>))"
    by simp
next
  assume "everySkippedOrFalsy env keys msgs PROVIDER_CASCADE_ORDER s"
  from every_falsy_chat_loop[OF this]
  show "fst (chat env keys msgs s) = Inl AllProvidersFailed"
    and "\<exists>evs. trace (snd (chat env keys msgs s)) = trace s @ evs \<and> errors_of evs = [] \<and>
             (\<forall>q\<in>set PROVIDER_CASCADE_ORDER. usable keys q \<longrightarrow> q \<in> set (calls_of evs))"
    unfolding chat_def by blast+
next
  assume e: "\<forall>n r. \<exists>response v. fetch env n r = Inr response \<and> ok response \<and>
                          bodyJson response = Inr v \<and> \<not> truthy v"
  from all_falsy[OF e, of keys msgs PROVIDER_CASCADE_ORDER s]
  show "fst (chat env keys msgs s) = Inl AllProvidersFailed"
    and "\<forall>ev \<in> set (trace (snd (chat env keys msgs s))).
         ev \<in> set (trace s) \<or> (\<exists>q r. ev = Fetch q r) \<or> (\<exists>q. ev = WarnSkip q)"
    unfolding chat_def by blast+
  from env_falsy_exact[OF e]
  show "trace (snd (chat env keys msgs s)) =
        trace s @ map (passedEvent keys msgs) PROVIDER_CASCADE_ORDER"
    unfolding chat_def .
qed

lemma retryNull_cerebras:
  "tryProviderWithBackoff envRetryNull cerebras hello ''fake-cerebras-key'' s0 =
     (Inr JNull, snd (tryProviderWithBackoff envRetryNull cerebras hello ''fake-cerebras-key'' s0))"
  "calls (snd (tryProviderWithBackoff envRetryNull cerebras hello ''fake-cerebras-key'' s0)) =
     [cerebras, cerebras]"
  by (simp_all add: run_defs envRetryNull_def calls_def)

lemma retryNull_gemini:
  "tryProviderWithBackoff envRetryNull gemini hello ''fake-gemini-key''
     (skipped [] (snd (tryProviderWithBackoff envRetryNull cerebras hello ''fake-cerebras-key'' s0))) =
   (Inr (geminiReply ''Response from Gemini''),
    snd (tryProviderWithBackoff envRetryNull gemini hello ''fake-gemini-key''
     (skipped [] (snd (tryProviderWithBackoff envRetryNull cerebras hello ''fake-cerebras-key'' s0)))))"
  by (simp add: run_defs envRetryNull_def skipped_def)

lemma json_null_every_falsy:
  "everySkippedOrFalsy (envJson JNull) twoKeys hello PROVIDER_CASCADE_ORDER s0"
  by (simp add: PROVIDER_CASCADE_ORDER_def twoKeys_def tryProviderWithBackoff_def tryLoop.simps
        makeApiCall_def envJson_def ok_def jsonResponse_def MAX_RETRIES_def Let_def)

text \<open>
  Claim C10 in a run where the first provider answers 429 and then 200 with the body
  \<open>null\<close> and the second provider answers, and with endpoints that always answer 200
  and the body \<open>null\<close>.
\<close>

theorem falsy_body_falls_through_witness:
  "twoKeys cerebras = Some ''fake-cerebras-key'' \<and> twoKeys gemini = Some ''fake-gemini-key'' \<and>
   \<not> truthy JNull \<and>
   fst (tryProviderWithBackoff envRetryNull cerebras hello ''fake-cerebras-key'' s0) = Inr JNull \<and>
   calls (snd (tryProviderWithBackoff envRetryNull cerebras hello ''fake-cerebras-key'' s0)) =
     [cerebras, cerebras] \<and>
   (\<exists>more. trace (snd (chat_loop envRetryNull twoKeys hello (cerebras # [] @ gemini # [deepseek]) s0)) =
      trace (snd (tryProviderWithBackoff envRetryNull cerebras hello ''fake-cerebras-key'' s0)) @
      map WarnSkip [] @ Fetch gemini (buildRequest gemini hello ''fake-gemini-key'') # more) \<and>
   fst (chat_loop envRetryNull twoKeys hello (cerebras # [] @ gemini # [deepseek]) s0) =
     Inr \<lparr>result_content = JStr ''Response from Gemini'', result_provider = gemini\<rparr> \<and>
   fetch (envJson JNull) (fetched s0) (buildRequest cerebras hello ''fake-cerebras-key'') =
     Inr (jsonResponse JNull) \<and>
   ok (jsonResponse JNull) \<and> bodyJson (jsonResponse JNull) = Inr JNull \<and>
   chat_loop (envJson JNull) twoKeys hello [cerebras, gemini] s0 =
     chat_loop (envJson JNull) twoKeys hello [gemini]
       (emit (Fetch cerebras (buildRequest cerebras hello ''fake-cerebras-key''))
          (s0\<lparr>fetched := fetched s0 + 1\<rparr>)) \<and>
   everySkippedOrFalsy (envJson JNull) twoKeys hello PROVIDER_CASCADE_ORDER s0 \<and>
   fst (chat (envJson JNull) twoKeys hello s0) = Inl AllProvidersFailed \<and>
   trace (snd (chat (envJson JNull) twoKeys hello s0)) =
     [Fetch cerebras (buildRequest cerebras hello ''fake-cerebras-key''),
      Fetch gemini (buildRequest gemini hello ''fake-gemini-key''),
      WarnSkip deepseek, WarnSkip openrouter, WarnSkip mistral, WarnSkip together, WarnSkip groq]"
proof -
  have k: "twoKeys cerebras = Some ''fake-cerebras-key''" "''fake-cerebras-key'' \<noteq> []"
    "twoKeys gemini = Some ''fake-gemini-key''" "''fake-gemini-key'' \<noteq> []"
    by (simp_all add: twoKeys_def)
  have nt: "\<not> truthy JNull" by simp
  have hypA: "twoKeys cerebras = Some ''fake-cerebras-key'' \<and> ''fake-cerebras-key'' \<noteq> [] \<and>
      tryProviderWithBackoff envRetryNull cerebras hello ''fake-cerebras-key'' s0 =
        (Inr JNull, snd (tryProviderWithBackoff envRetryNull cerebras hello ''fake-cerebras-key'' s0)) \<and>
      \<not> truthy JNull"
    using k retryNull_cerebras(1) by simp
  note A = falsy_body_falls_through[of twoKeys cerebras "''fake-cerebras-key''" envRetryNull hello s0
             JNull "snd (tryProviderWithBackoff envRetryNull cerebras hello ''fake-cerebras-key'' s0)",
             THEN conjunct1, rule_format, OF hypA]
  have hypN: "(\<forall>m\<in>set []. twoKeys m = None \<or> twoKeys m = Some []) \<and>
              twoKeys gemini = Some ''fake-gemini-key'' \<and> ''fake-gemini-key'' \<noteq> []"
    using k by simp
  note N = A[THEN conjunct2, THEN conjunct2, THEN conjunct2, rule_format, OF hypN]
  from N[THEN conjunct1, of "[deepseek]"]
  have D: "\<exists>more. trace (snd (chat_loop envRetryNull twoKeys hello (cerebras # [] @ gemini # [deepseek]) s0)) =
      trace (snd (tryProviderWithBackoff envRetryNull cerebras hello ''fake-cerebras-key'' s0)) @
      map WarnSkip [] @ Fetch gemini (buildRequest gemini hello ''fake-gemini-key'') # more" .
  have tr: "truthy (geminiReply ''Response from Gemini'')" by (simp add: geminiReply_def)
  have pr: "parseResponse gemini (geminiReply ''Response from Gemini'') sx =
            (Inr (JStr ''Response from Gemini''), sx)" for sx
    by (simp add: parse_gemini_reply)
  from N[THEN conjunct2, rule_format, of "geminiReply ''Response from Gemini''" _
          "JStr ''Response from Gemini''" _ "[deepseek]"] retryNull_gemini tr pr
  have E: "fst (chat_loop envRetryNull twoKeys hello (cerebras # [] @ gemini # [deepseek]) s0) =
     Inr \<lparr>result_content = JStr ''Response from Gemini'', result_provider = gemini\<rparr>"
    by simp
  from retryNull_cerebras(1) have F:
    "fst (tryProviderWithBackoff envRetryNull cerebras hello ''fake-cerebras-key'' s0) = Inr JNull"
    by (metis fst_conv)
  have f: "fetch (envJson JNull) (fetched s0) (buildRequest cerebras hello ''fake-cerebras-key'') =
     Inr (jsonResponse JNull)"
    by (simp add: envJson_def)
  have r: "ok (jsonResponse JNull)" "bodyJson (jsonResponse JNull) = Inr JNull"
    by (simp_all add: ok_def jsonResponse_def)
  have e: "\<forall>n r. \<exists>response v. fetch (envJson JNull) n r = Inr response \<and> ok response \<and>
                          bodyJson response = Inr v \<and> \<not> truthy v"
    by (simp add: envJson_def ok_def jsonResponse_def)
  note T = falsy_body_falls_through[of twoKeys cerebras "''fake-cerebras-key''" "envJson JNull" hello s0
              JNull _ "[gemini]" "jsonResponse JNull"]
  from T k f r nt have G: "chat_loop (envJson JNull) twoKeys hello [cerebras, gemini] s0 =
     chat_loop (envJson JNull) twoKeys hello [gemini]
       (emit (Fetch cerebras (buildRequest cerebras hello ''fake-cerebras-key''))
          (s0\<lparr>fetched := fetched s0 + 1\<rparr>))"
    by blast
  from T json_null_every_falsy have H: "fst (chat (envJson JNull) twoKeys hello s0) = Inl AllProvidersFailed"
    by blast
  from T e have "trace (snd (chat (envJson JNull) twoKeys hello s0)) =
        trace s0 @ map (passedEvent twoKeys hello) PROVIDER_CASCADE_ORDER"
    by blast
  then have I: "trace (snd (chat (envJson JNull) twoKeys hello s0)) =
     [Fetch cerebras (buildRequest cerebras hello ''fake-cerebras-key''),
      Fetch gemini (buildRequest gemini hello ''fake-gemini-key''),
      WarnSkip deepseek, WarnSkip openrouter, WarnSkip mistral, WarnSkip together, WarnSkip groq]"
    by (simp add: PROVIDER_CASCADE_ORDER_def passedEvent_def twoKeys_def s0_def)
  from k nt F retryNull_cerebras(2) D E f r G json_null_every_falsy H I show ?thesis by blast
qed

section \<open>Cascade Controller: exhaustion and first success\<close>

lemma exhausted_chat_loop:
  "everySkippedOrFailed env keys msgs ps s \<Longrightarrow> fst (chat_loop env keys msgs ps s) = Inl AllProvidersFailed"
  by (induction ps arbitrary: s) (auto split: option.splits if_splits prod.splits sum.splits)

lemma aggregate_names_no_provider:
  "\<not> sublist (providerName p) (message AllProvidersFailed)"
  by (cases p) (simp_all add: sublist_Cons_right prefix_Cons)

text \<open>
  Claim C2. When every provider of the cascade is skipped for want of a credential or has
  its retry policy throw, \<open>chat\<close> rejects with the aggregate error, whose message is the
  fixed one, with no provider's name in it. And whatever the run, the only error
  \<open>chat\<close> can reject with is the aggregate one: no error of a provider call or of an
  extraction reaches the caller.
\<close>

theorem cascade_exhaustion:
  assumes "everySkippedOrFailed env keys msgs PROVIDER_CASCADE_ORDER s"
  shows "fst (chat env keys msgs s) = Inl AllProvidersFailed \<and>
         message AllProvidersFailed =
           ''All AI providers failed. Please check your API keys, network connection, and provider status.'' \<and>
         (\<forall>p. \<not> sublist (providerName p) (message AllProvidersFailed)) \<and>
         (\<forall>s' e. fst (chat env keys msgs s') = Inl e \<longrightarrow> e = AllProvidersFailed)"
proof -
  from assms have "fst (chat env keys msgs s) = Inl AllProvidersFailed"
    unfolding chat_def by (rule exhausted_chat_loop)
  moreover have "\<forall>p. \<not> sublist (providerName p) (message AllProvidersFailed)"
    using aggregate_names_no_provider by blast
  moreover have "\<forall>s' e. fst (chat env keys msgs s') = Inl e \<longrightarrow> e = AllProvidersFailed"
    unfolding chat_def by (metis chat_loop_error prod.collapse)
  ultimately show ?thesis by simp
qed

text \<open>Claim C2 with two credentials and endpoints that always answer 500.\<close>

theorem cascade_exhaustion_witness:
  "everySkippedOrFailed (envAlways 500) twoKeys hello PROVIDER_CASCADE_ORDER s0 \<and>
   fst (chat (envAlways 500) twoKeys hello s0) = Inl AllProvidersFailed"
proof -
  have h: "everySkippedOrFailed (envAlways 500) twoKeys hello PROVIDER_CASCADE_ORDER s0"
    by (simp add: PROVIDER_CASCADE_ORDER_def twoKeys_def envAlways_500_run Let_def)
  from cascade_exhaustion[OF h] h show ?thesis by blast
qed

text \<open>
  Claim C1 as stated fails: the call to the first provider succeeds within the retry
  policy, with the body \<open>null\<close> in one run and \<open>{}\<close> in the other, and \<open>chat\<close> still
  goes on to call the second provider and resolves with it.
\<close>

theorem chat_first_success_counterexample:
  "fst (tryProviderWithBackoff (envUnusable JNull) cerebras hello ''fake-cerebras-key'' s0) = Inr JNull \<and>
   fst (chat (envUnusable JNull) twoKeys hello s0) =
     Inr \<lparr>result_content = JStr ''Response from Gemini'', result_provider = gemini\<rparr> \<and>
   calls (snd (chat (envUnusable JNull) twoKeys hello s0)) = [cerebras, gemini] \<and>
   fst (tryProviderWithBackoff (envUnusable (JObj [])) cerebras hello ''fake-cerebras-key'' s0) = Inr (JObj []) \<and>
   fst (chat (envUnusable (JObj [])) twoKeys hello s0) =
     Inr \<lparr>result_content = JStr ''Response from Gemini'', result_provider = gemini\<rparr> \<and>
   calls (snd (chat (envUnusable (JObj [])) twoKeys hello s0)) = [cerebras, gemini]"
  by (simp add: run_defs envUnusable_def twoKeys_def chat_def PROVIDER_CASCADE_ORDER_def calls_def
        parseResponse_def openaiContent_def geminiText_def geminiReply_def)

text \<open>
  Claim C1, as the code has it. Let \<open>p\<close> be a provider of the cascade such that every
  provider before it is passed over (skipped for want of a credential, failed after its
  retry policy, answered with a falsy body, or answered with a body on which extraction
  threw), \<open>p\<close> has a non-empty credential, its retry policy returns a truthy body, and
  extraction from that body does not throw. Then \<open>chat\<close> resolves with the extracted
  content and \<open>p\<close>; among the requests of the run there is one to \<open>p\<close> and none to a
  provider after \<open>p\<close>.
\<close>

theorem chat_first_success:
  assumes order: "PROVIDER_CASCADE_ORDER = before @ p # after"
    and earlier: "passedOver env keys msgs before s = Some s1"
    and key: "keys p = Some key" "key \<noteq> []"
    and call: "tryProviderWithBackoff env p msgs key s1 = (Inr v, s2)"
    and usable: "truthy v" "parseResponse p v s2 = (Inr c, s3)"
  shows "chat env keys msgs s = (Inr \<lparr>result_content = c, result_provider = p\<rparr>, s3) \<and>
         fst (chat env keys msgs s) = Inr \<lparr>result_content = c, result_provider = p\<rparr> \<and>
         (\<exists>new. calls (snd (chat env keys msgs s)) = calls s @ new \<and> p \<in> set new \<and>
                set new \<inter> set after = {})"
proof -
  have run: "chat env keys msgs s = (Inr \<lparr>result_content = c, result_provider = p\<rparr>, s3)"
    unfolding chat_def order chat_loop_passedOver[OF earlier]
    using key call usable by simp
  from passedOver_calls[OF earlier] obtain new1 where
    new1: "calls s1 = calls s @ new1" "set new1 \<subseteq> set before" by blast
  from tryProvider_calls[OF call] obtain n where n: "calls s2 = calls s1 @ replicate n p" by blast
  from tryProvider_first_call[OF call] n have "n \<noteq> 0" by (cases n) auto
  then have pin: "p \<in> set (replicate n p)" by simp
  have "s3 = s2" using usable(2) by (rule parseResponse_ok_state)
  with new1 n have c: "calls s3 = calls s @ (new1 @ replicate n p)" by simp
  have "distinct (before @ p # after)" using distinct_order by (simp add: order)
  with new1(2) have "set (new1 @ replicate n p) \<inter> set after = {}" by auto
  with c run pin show ?thesis
    by (intro conjI exI[of _ "new1 @ replicate n p"]) auto
qed

lemma unusable_passed:
  "passedOver (envUnusable (JObj [])) twoKeys hello [cerebras] s0 =
     Some (emit (ErrorPermanent cerebras (ParseError cerebras))
            (emit (ErrorParse cerebras (JObj []))
              (emit (Fetch cerebras (buildRequest cerebras hello ''fake-cerebras-key'')) (s0\<lparr>fetched := 1\<rparr>))))"
  by (simp add: run_defs envUnusable_def twoKeys_def parseResponse_def openaiContent_def)

lemma unusable_gemini:
  "tryProviderWithBackoff (envUnusable (JObj [])) gemini hello ''fake-gemini-key''
     (emit (ErrorPermanent cerebras (ParseError cerebras))
            (emit (ErrorParse cerebras (JObj []))
              (emit (Fetch cerebras (buildRequest cerebras hello ''fake-cerebras-key'')) (s0\<lparr>fetched := 1\<rparr>)))) =
   (Inr (geminiReply ''Response from Gemini''),
    snd (tryProviderWithBackoff (envUnusable (JObj [])) gemini hello ''fake-gemini-key''
     (emit (ErrorPermanent cerebras (ParseError cerebras))
            (emit (ErrorParse cerebras (JObj []))
              (emit (Fetch cerebras (buildRequest cerebras hello ''fake-cerebras-key'')) (s0\<lparr>fetched := 1\<rparr>))))))"
  by (simp add: run_defs envUnusable_def)

text \<open>
  Claim C1 in a run where the first provider answers 200 with the body \<open>{}\<close>, on which
  extraction throws, and the second provider answers.
\<close>

theorem chat_first_success_witness:
  "PROVIDER_CASCADE_ORDER = [cerebras] @ gemini # [deepseek, openrouter, mistral, together, groq] \<and>
   passedOver (envUnusable (JObj [])) twoKeys hello [cerebras] s0 =
     Some (emit (ErrorPermanent cerebras (ParseError cerebras))
            (emit (ErrorParse cerebras (JObj []))
              (emit (Fetch cerebras (buildRequest cerebras hello ''fake-cerebras-key'')) (s0\<lparr>fetched := 1\<rparr>)))) \<and>
   twoKeys gemini = Some ''fake-gemini-key'' \<and>
   truthy (geminiReply ''Response from Gemini'') \<and>
   fst (chat (envUnusable (JObj [])) twoKeys hello s0) =
     Inr \<lparr>result_content = JStr ''Response from Gemini'', result_provider = gemini\<rparr> \<and>
   (\<exists>new. calls (snd (chat (envUnusable (JObj [])) twoKeys hello s0)) = calls s0 @ new \<and>
          gemini \<in> set new \<and>
          set new \<inter> set [deepseek, openrouter, mistral, together, groq] = {})"
proof -
  have order: "PROVIDER_CASCADE_ORDER = [cerebras] @ gemini # [deepseek, openrouter, mistral, together, groq]"
    by (simp add: PROVIDER_CASCADE_ORDER_def)
  have key: "twoKeys gemini = Some ''fake-gemini-key''" "''fake-gemini-key'' \<noteq> []"
    by (simp_all add: twoKeys_def)
  have tr: "truthy (geminiReply ''Response from Gemini'')" by (simp add: geminiReply_def)
  have pr: "parseResponse gemini (geminiReply ''Response from Gemini'') sx =
            (Inr (JStr ''Response from Gemini''), sx)" for sx
    by (simp add: parse_gemini_reply)
  note T = chat_first_success[OF order unusable_passed key unusable_gemini tr pr]
  from T order unusable_passed key(1) tr show ?thesis by blast
qed

end
